theory Spec2Isabelle
  imports Complex_Main "HOL-Library.AList" "HOL-Library.Char_ord" "HOL-Library.List_Lexorder"
    "HOL-Library.Log_Nat"
begin

section \<open>Data model shared by the dashboard modules\<close>

text \<open>
  A pandas DataFrame is modelled by its rows in positional order: each row pairs the
  index label (the entity identifier) with the row's content. The column structure is
  folded into the row type. \<open>df.shape[0]\<close> is the number of rows, \<open>df.index\<close> the list of
  labels and \<open>df.empty\<close> holds of the frame without rows.
\<close>

type_synonym 'r DataFrame = "(string \<times> 'r) list"

definition shape0 :: "'r DataFrame \<Rightarrow> nat" where
  "shape0 df = length df"

definition index_of :: "'r DataFrame \<Rightarrow> string list" where
  "index_of df = map fst df"

definition empty_df :: "'r DataFrame \<Rightarrow> bool" where
  "empty_df df = (df = [])"

text \<open>
  A selection is the pair (index array, LARD score). The selection results are a Python
  dict from a strategy label to a selection; the simulation results are a dict with the
  keys \<open>scores\<close> and \<open>ns\<close>. Python dicts keep insertion order and unique keys, so both are
  association lists maintained with \<open>AList.update\<close>; the empty dict is the empty list.
\<close>

type_synonym selection = "nat list \<times> real"
type_synonym surr_dict = "(string \<times> selection) list"
type_synonym sim_dict = "(string \<times> real list) list"

datatype error = KeyError | TypeError | OverflowError | SelectorError

subsection \<open>Python's numbers\<close>

text \<open>
  A Python number is written as the real number it denotes, so that an int and a float
  are equal when Python's \<open>==\<close> says so. A float is an IEEE 754 binary64 number: every
  float that occurs is the value of a double, and arithmetic on floats rounds.

  Python's \<open>round(x)\<close> with one argument: to the nearest integer, a tie to the even one.
\<close>

definition py_round :: "real \<Rightarrow> int" where
  "py_round x =
     (let f = \<lfloor>x\<rfloor>; d = x - of_int f
      in if d < 1 / 2 then f
         else if 1 / 2 < d then f + 1
         else if even f then f else f + 1)"

text \<open>
  \<open>fl x\<close> is the double nearest to \<open>x\<close>, a tie going to the even significand: \<open>x\<close> is
  rounded to a multiple of \<open>2 ^ (e - 52)\<close>, where \<open>2 ^ e \<le> |x| < 2 ^ (e + 1)\<close>, and to a
  multiple of \<open>2 ^ - 1074\<close> below the normal range. A float literal such as \<open>0.01\<close> is
  \<open>fl (1 / 100)\<close>. A result of magnitude \<open>2 ^ 1024\<close> or more is an infinity in Python;
  it is tested for where it matters.
\<close>

definition pow2 :: "int \<Rightarrow> real" where
  "pow2 k = (if 0 \<le> k then 2 ^ nat k else 1 / 2 ^ nat (- k))"

definition binade :: "real \<Rightarrow> int" where
  "binade x =
     (if 1 \<le> \<bar>x\<bar> then bitlen \<lfloor>\<bar>x\<bar>\<rfloor> - 1 else - bitlen (\<lceil>1 / \<bar>x\<bar>\<rceil> - 1))"

definition fl :: "real \<Rightarrow> real" where
  "fl x =
     (if x = 0 then 0
      else (let q = pow2 (max (binade x - 52) (- 1074)) in of_int (py_round (x / q)) * q))"

text \<open>
  \<open>N * n\<close> for the int \<open>N\<close>. A number without a fractional part and below \<open>10 ^ 21\<close> in
  magnitude reaches the server as an int (so do the lengths computed there), and the
  product of two ints is exact; any other number is a float, and the product is rounded
  (the int \<open>N\<close>, a number of rows, is below \<open>2 ^ 53\<close> and is converted exactly).
\<close>

definition py_times :: "nat \<Rightarrow> real \<Rightarrow> real" where
  "py_times N x =
     (if x = of_int \<lfloor>x\<rfloor> \<and> \<bar>x\<bar> < 10 ^ 21 then real N * x else fl (real N * x))"

section \<open>components/data\_store.py\<close>

record ('d, 'e) DataStore =
  data :: "'d DataFrame"
  desc :: "'e DataFrame"
  surr :: surr_dict
  sim :: sim_dict

definition init_store :: "('d, 'e) DataStore" where
  "init_store = \<lparr> data = [], desc = [], surr = [], sim = [] \<rparr>"

text \<open>\<open>data_[data_.index.isin(desc_.index)]\<close>: the rows whose label occurs in the other index.\<close>

definition trim :: "'d DataFrame \<Rightarrow> 'e DataFrame \<Rightarrow> 'd DataFrame" where
  "trim new_data new_desc = filter (\<lambda>row. fst row \<in> set (index_of new_desc)) new_data"

definition update_data ::
  "'d DataFrame \<Rightarrow> 'e DataFrame \<Rightarrow> ('d, 'e) DataStore \<Rightarrow> ('d, 'e) DataStore" where
  "update_data new_data new_desc st =
     (let data_trimmed = trim new_data new_desc;
          st1 = st\<lparr>desc := new_desc\<rparr>;
          st2 = st1\<lparr>data := data_trimmed\<rparr>;
          st3 = st2\<lparr>surr := []\<rparr>
      in st3\<lparr>sim := []\<rparr>)"

definition update_surrogates ::
  "surr_dict \<Rightarrow> sim_dict \<Rightarrow> ('d, 'e) DataStore \<Rightarrow> ('d, 'e) DataStore" where
  "update_surrogates new_surr new_sim st = (st\<lparr>surr := new_surr\<rparr>)\<lparr>sim := new_sim\<rparr>"

text \<open>
  The callbacks of dashboard/app.py (\<open>_set_data\<close>, \<open>_set_surr\<close>) act on the same four
  reactive values; \<open>_set_data\<close> clears the derived state first and stores the frames after.
\<close>

definition set_data ::
  "'d DataFrame \<Rightarrow> 'e DataFrame \<Rightarrow> ('d, 'e) DataStore \<Rightarrow> ('d, 'e) DataStore" where
  "set_data new_data new_desc st =
     (let st1 = st\<lparr>surr := []\<rparr>;
          st2 = st1\<lparr>sim := []\<rparr>;
          st3 = st2\<lparr>desc := new_desc\<rparr>
      in st3\<lparr>data := trim new_data new_desc\<rparr>)"

definition set_surr ::
  "surr_dict \<Rightarrow> sim_dict \<Rightarrow> ('d, 'e) DataStore \<Rightarrow> ('d, 'e) DataStore" where
  "set_surr new_surr new_sim st = (st\<lparr>surr := new_surr\<rparr>)\<lparr>sim := new_sim\<rparr>"

subsection \<open>surrogate\_labels\<close>

text \<open>\<open>sep.join(xs)\<close> of Python.\<close>

fun join :: "string \<Rightarrow> string list \<Rightarrow> string" where
  "join sep [] = []"
| "join sep [x] = x"
| "join sep (x # y # ys) = x @ sep @ join sep (y # ys)"

text \<open>
  \<open>labels\<close> is the dict \<open>{i: [] for i in range(N)}\<close>: its keys are \<open>0..N-1\<close> in this order, so
  it is the list of its values by position. \<open>labels[i].append(strat)\<close> raises KeyError for
  a key that is not there, and never adds a key.
\<close>

fun append_labels :: "string \<Rightarrow> nat list \<Rightarrow> string list list \<Rightarrow> error + string list list" where
  "append_labels strat [] labels = Inr labels"
| "append_labels strat (i # idx) labels =
     (if i < length labels
      then append_labels strat idx (labels[i := labels ! i @ [strat]])
      else Inl KeyError)"

fun collect_labels :: "surr_dict \<Rightarrow> string list list \<Rightarrow> error + string list list" where
  "collect_labels [] labels = Inr labels"
| "collect_labels ((strat, (idx, _)) # items) labels =
     (case append_labels strat idx labels of
        Inl e \<Rightarrow> Inl e
      | Inr labels' \<Rightarrow> collect_labels items labels')"

definition label_of :: "string list \<Rightarrow> string" where
  "label_of x = (if x \<noteq> [] then join ''&'' (sort x) else ''none'')"

definition surrogate_labels :: "('d, 'e) DataStore \<Rightarrow> error + string list" where
  "surrogate_labels st =
     (case collect_labels (surr st) (replicate (shape0 (desc st)) []) of
        Inl e \<Rightarrow> Inl e
      | Inr labels \<Rightarrow> Inr (map label_of labels))"

section \<open>components/sidebar.py\<close>

subsection \<open>The selector, as the sidebar sees it\<close>

text \<open>
  The class \<open>SurrogateSelection\<close> (utils/surrogate\_selection) is used by the sidebar and
  is not part of these sources, so a selector is a parameter of the model. The sidebar
  names two members of its \<open>Strategy\<close> enum; the strategies chosen in the selectize input
  reach \<open>select\<close> as the strings of the input (the enum's values), the simulation passes
  the member \<open>RANDOM\<close> itself.

  \<open>select_result k x s\<close> is what \<open>selector.select(x, s)\<close> returns, or the exception it
  raises, when \<open>k\<close> calls of \<open>select\<close> were made before: the number of earlier calls stands
  for the state of the random generator, so that two calls with the same arguments may
  differ. \<open>score_result idx\<close> is what \<open>selector.score(idx)\<close> returns or raises.
\<close>

datatype Strategy = HIERARCHICAL | RANDOM

datatype strategy_arg = ByValue string | ByMember Strategy

record selector =
  select_result :: "nat \<Rightarrow> real \<Rightarrow> strategy_arg \<Rightarrow> error + selection"
  score_result :: "nat list \<Rightarrow> error + real"

datatype ValidationErrors = NO_DATA | N_INVALID | NO_STRAT | NO_USER

text \<open>
  What the server function reads and writes: the module-level list \<open>RANDOM_NS\<close> (a mutable
  Python list, shared by every invocation), the log of the calls of \<open>selector.select\<close>
  with their arguments, the error notifications shown, and the data store behind the
  callbacks. A numeric input is a number or \<open>None\<close> (the empty field).
\<close>

record ('d, 'e) world =
  RANDOM_NS :: "real option list"
  calls :: "(real \<times> strategy_arg) list"
  notifications :: "ValidationErrors list"
  store :: "('d, 'e) DataStore"

record inputs =
  input_include_auto :: bool
  input_n :: "real option"
  input_strats :: "string list"
  input_include_user :: bool
  input_user_ids :: string

definition RANDOM_REPS :: nat where
  "RANDOM_REPS = 100"

definition RANDOM_NS_init :: "real option list" where
  "RANDOM_NS_init = [Some (fl (1 / 100)), Some (fl (1 / 10)), Some (fl (1 / 5)), Some (fl (1 / 2))]"

definition init_world :: "('d, 'e) world" where
  "init_world = \<lparr> RANDOM_NS = RANDOM_NS_init, calls = [], notifications = [], store = init_store \<rparr>"

subsection \<open>user\_idx\<close>

text \<open>
  \<open>str.splitlines()\<close>: the text is a byte string in UTF-8. A line ends at \<open>\r\n\<close>, \<open>\n\<close>, \<open>\r\<close>,
  \<open>\v\<close>, \<open>\f\<close>, \<open>\x1c\<close>, \<open>\x1d\<close>, \<open>\x1e\<close>, \<open>\x85\<close> (bytes C2 85), U+2028 and U+2029 (bytes E2 80 A8 and
  E2 80 A9); the line ends are dropped, and a text that ends in a line end
  has no empty last line.
\<close>

definition linebreak_len :: "string \<Rightarrow> nat" where
  "linebreak_len s =
     (case s of
        [] \<Rightarrow> 0
      | c # r \<Rightarrow>
          if c = CHR 0x0D then (if take 1 r = [CHR 0x0A] then 2 else 1)
          else if c \<in> set [CHR 0x0A, CHR 0x0B, CHR 0x0C, CHR 0x1C, CHR 0x1D, CHR 0x1E] then 1
          else if c = CHR 0xC2 \<and> take 1 r = [CHR 0x85] then 2
          else if c = CHR 0xE2 \<and>
                  (take 2 r = [CHR 0x80, CHR 0xA8] \<or> take 2 r = [CHR 0x80, CHR 0xA9]) then 3
          else 0)"

function splitlines_from :: "string \<Rightarrow> string \<Rightarrow> string list" where
  "splitlines_from cur s =
     (if s = [] then (if cur = [] then [] else [rev cur])
      else if linebreak_len s = 0 then splitlines_from (hd s # cur) (tl s)
      else rev cur # splitlines_from [] (drop (linebreak_len s) s))"
  by pat_completeness auto
termination
  by (relation "measure (\<lambda>(cur, s). length s)") auto

definition splitlines :: "string \<Rightarrow> string list" where
  "splitlines s = splitlines_from [] s"

text \<open>
  \<open>np.isin(element, test)\<close> on 1-d arrays, and \<open>np.where(mask)[0]\<close>. The index of the
  frame is an array of Python strings (dtype object). The list of the entered lines
  becomes, by \<open>np.asarray\<close>, an array of fixed-width strings padded with NUL characters,
  and an element read from such an array comes without the NUL characters at its end.
  \<open>isin\<close> compares every element of the index with every element read from that array.
\<close>

definition rstrip_nul :: "string \<Rightarrow> string" where
  "rstrip_nul s = rev (dropWhile (\<lambda>c. c = CHR 0x00) (rev s))"

definition np_isin :: "string list \<Rightarrow> string list \<Rightarrow> bool list" where
  "np_isin element test = map (\<lambda>x. x \<in> set (map rstrip_nul test)) element"

definition np_where :: "bool list \<Rightarrow> nat list" where
  "np_where msk = filter (\<lambda>i. msk ! i) [0..<length msk]"

definition user_idx :: "'e DataFrame \<Rightarrow> string \<Rightarrow> nat list" where
  "user_idx d text = np_where (np_isin (index_of d) (splitlines text))"

subsection \<open>Validation and processing\<close>

fun falsy :: "real option \<Rightarrow> bool" where
  "falsy None = True"
| "falsy (Some x) = (x = 0)"

definition validate_auto :: "real option \<times> string list \<Rightarrow> ValidationErrors list" where
  "validate_auto args =
     (case args of (n_in, strats_in) \<Rightarrow>
        (if falsy n_in \<or> the n_in \<le> 0 then [N_INVALID] else []) @
        (if strats_in = [] then [NO_STRAT] else []))"

definition call_select ::
  "selector \<Rightarrow> real \<Rightarrow> strategy_arg \<Rightarrow> ('d, 'e) world \<Rightarrow> (error + selection) \<times> ('d, 'e) world" where
  "call_select sel x s w =
     (select_result sel (length (calls w)) x s, w\<lparr>calls := calls w @ [(x, s)]\<rparr>)"

text \<open>
  The dict comprehension \<open>{strat: selector.select(n=n, strategy=strat) for strat in strats}\<close>:
  one call per strategy, in order, each with the \<open>n\<close> it was given.
\<close>

fun process_auto_from ::
  "selector \<Rightarrow> real \<Rightarrow> string list \<Rightarrow> surr_dict \<Rightarrow> ('d, 'e) world
     \<Rightarrow> (error + surr_dict) \<times> ('d, 'e) world" where
  "process_auto_from sel x [] acc w = (Inr acc, w)"
| "process_auto_from sel x (strat # rest) acc w =
     (case call_select sel x (ByValue strat) w of
        (Inl e, w') \<Rightarrow> (Inl e, w')
      | (Inr r, w') \<Rightarrow> process_auto_from sel x rest (AList.update strat r acc) w')"

text \<open>
  \<open>_process_auto\<close> runs only after \<open>_validate_auto\<close> found a number above zero, so the
  case of \<open>None\<close> is never reached; there the selector would be handed \<open>None\<close>.
\<close>

definition process_auto ::
  "selector \<Rightarrow> real option \<times> string list \<Rightarrow> ('d, 'e) world
     \<Rightarrow> (error + surr_dict) \<times> ('d, 'e) world" where
  "process_auto sel args w =
     (case args of
        (None, strats_in) \<Rightarrow> (Inl TypeError, w)
      | (Some x, strats_in) \<Rightarrow> process_auto_from sel x strats_in [] w)"

definition validate_user :: "nat list \<Rightarrow> ValidationErrors list" where
  "validate_user uidx = (if length uidx = 0 then [NO_USER] else [])"

definition process_user ::
  "selector \<Rightarrow> nat list \<Rightarrow> ('d, 'e) world \<Rightarrow> (error + surr_dict) \<times> ('d, 'e) world" where
  "process_user sel uidx w =
     (case score_result sel uidx of
        Inl e \<Rightarrow> (Inl e, w)
      | Inr sc \<Rightarrow> (Inr [(''user'', (uidx, sc))], w))"

definition error_notifications :: "ValidationErrors list \<Rightarrow> ('d, 'e) world \<Rightarrow> ('d, 'e) world" where
  "error_notifications errs w = w\<lparr>notifications := notifications w @ errs\<rparr>"

definition process_conditional ::
  "bool \<Rightarrow> selector \<Rightarrow> ('a \<Rightarrow> ValidationErrors list)
     \<Rightarrow> (selector \<Rightarrow> 'a \<Rightarrow> ('d, 'e) world \<Rightarrow> (error + surr_dict) \<times> ('d, 'e) world)
     \<Rightarrow> 'a \<Rightarrow> ('d, 'e) world \<Rightarrow> (error + surr_dict) \<times> ('d, 'e) world" where
  "process_conditional switch sel validate_fn process_fn args w =
     (if switch
      then (let errors = validate_fn args
            in if errors \<noteq> [] then (Inr [], error_notifications errors w)
               else process_fn sel args w)
      else (Inr [], w))"

subsection \<open>The baseline simulation\<close>

text \<open>\<open>np.repeat(ns, k)\<close>: each element \<open>k\<close> times, in blocks.\<close>

definition np_repeat :: "'a list \<Rightarrow> nat \<Rightarrow> 'a list" where
  "np_repeat xs k = concat (map (replicate k) xs)"

text \<open>
  The list comprehension of \<open>_simulate_random\<close>: \<open>k\<close> calls of
  \<open>selector.select(n, Strategy.RANDOM)\<close>, of each only the element \<open>[1]\<close> (the score).
\<close>

fun random_scores ::
  "selector \<Rightarrow> real \<Rightarrow> nat \<Rightarrow> ('d, 'e) world \<Rightarrow> (error + real list) \<times> ('d, 'e) world" where
  "random_scores sel x 0 w = (Inr [], w)"
| "random_scores sel x (Suc k) w =
     (case call_select sel x (ByMember RANDOM) w of
        (Inl e, w') \<Rightarrow> (Inl e, w')
      | (Inr r, w') \<Rightarrow>
          (case random_scores sel x k w' of
             (Inl e, w'') \<Rightarrow> (Inl e, w'')
           | (Inr rs, w'') \<Rightarrow> (Inr (snd r # rs), w'')))"

fun simulate_loop ::
  "selector \<Rightarrow> real list \<Rightarrow> real list \<Rightarrow> ('d, 'e) world
     \<Rightarrow> (error + real list) \<times> ('d, 'e) world" where
  "simulate_loop sel [] scores w = (Inr scores, w)"
| "simulate_loop sel (x # xs) scores w =
     (case random_scores sel x RANDOM_REPS w of
        (Inl e, w') \<Rightarrow> (Inl e, w')
      | (Inr rs, w') \<Rightarrow> simulate_loop sel xs (scores @ rs) w')"

definition simulate_random ::
  "selector \<Rightarrow> real list \<Rightarrow> ('d, 'e) world \<Rightarrow> (error + sim_dict) \<times> ('d, 'e) world" where
  "simulate_random sel ns w =
     (case simulate_loop sel ns [] w of
        (Inl e, w') \<Rightarrow> (Inl e, w')
      | (Inr scores, w') \<Rightarrow>
          (Inr [(''scores'', scores), (''ns'', np_repeat ns RANDOM_REPS)], w'))"

subsection \<open>The selection effect\<close>

text \<open>
  \<open>n if n >= 1 else round(N * n)\<close>; comparing \<open>None\<close> with a number raises TypeError, and
  rounding an infinite product raises OverflowError. A size that stays is the number that
  was entered, an integer or not.
\<close>

fun effective_size :: "nat \<Rightarrow> real option \<Rightarrow> error + real" where
  "effective_size N None = Inl TypeError"
| "effective_size N (Some x) =
     (if 1 \<le> x then Inr x
      else (let p = py_times N x
            in if 2 ^ 1024 \<le> \<bar>p\<bar> then Inl OverflowError else Inr (of_int (py_round p))))"

fun sequence :: "(error + 'a) list \<Rightarrow> error + 'a list" where
  "sequence [] = Inr []"
| "sequence (Inl e # rs) = Inl e"
| "sequence (Inr v # rs) = (case sequence rs of Inl e \<Rightarrow> Inl e | Inr vs \<Rightarrow> Inr (v # vs))"

text \<open>
  \<open>[... for n in list(set(ns))]\<close>: the order in which Python walks a set is not fixed;
  \<open>remdups\<close> is one such order. The caller sorts the list, and whether an exception is
  raised does not depend on the order either.
\<close>

definition unique_int_ns :: "nat \<Rightarrow> real option list \<Rightarrow> error + real list" where
  "unique_int_ns N ns = sequence (map (effective_size N) (remdups ns))"

text \<open>\<open>{**a, **b}\<close>: the items of \<open>b\<close> are stored over those of \<open>a\<close>.\<close>

definition dict_merge :: "surr_dict \<Rightarrow> surr_dict \<Rightarrow> surr_dict" where
  "dict_merge a b = fold (\<lambda>(k, v). AList.update k v) b a"

text \<open>
  \<open>ns = RANDOM_NS\<close> binds a second name to the module's list, and \<open>ns.append\<close> changes
  that list in place.
\<close>

definition ns_append :: "real option \<Rightarrow> ('d, 'e) world \<Rightarrow> ('d, 'e) world" where
  "ns_append x w = w\<lparr>RANDOM_NS := RANDOM_NS w @ [x]\<rparr>"

definition assemble_ns ::
  "bool \<Rightarrow> nat list \<Rightarrow> bool \<Rightarrow> real option \<Rightarrow> ('d, 'e) world \<Rightarrow> ('d, 'e) world" where
  "assemble_ns include_user uidx include_auto n_auto w =
     (let w1 = (if include_user \<and> 0 < length uidx
                then ns_append (Some (real (length uidx))) w else w)
      in if include_auto then ns_append n_auto w1 else w1)"

definition select ::
  "('e DataFrame \<Rightarrow> selector) \<Rightarrow> inputs \<Rightarrow> ('d, 'e) world \<Rightarrow> (error + unit) \<times> ('d, 'e) world" where
  "select SurrogateSelection inp w =
     (let d = desc (store w) in
      if empty_df d then (Inr (), error_notifications [NO_DATA] w)
      else
        (let sel = SurrogateSelection d;
             include_auto = input_include_auto inp;
             n_auto = input_n inp
         in (case process_conditional include_auto sel validate_auto process_auto
                    (n_auto, input_strats inp) w of
               (Inl e, w1) \<Rightarrow> (Inl e, w1)
             | (Inr auto_surr, w1) \<Rightarrow>
                 (let include_user = input_include_user inp;
                      uidx = user_idx d (input_user_ids inp)
                  in (case process_conditional include_user sel validate_user process_user
                             uidx w1 of
                        (Inl e, w2) \<Rightarrow> (Inl e, w2)
                      | (Inr user_surr, w2) \<Rightarrow>
                          (let new_surr = dict_merge auto_surr user_surr in
                           if new_surr \<noteq> [] then
                             (let w3 = assemble_ns include_user uidx include_auto n_auto w2
                              in (case unique_int_ns (shape0 d) (RANDOM_NS w3) of
                                    Inl e \<Rightarrow> (Inl e, w3)
                                  | Inr sizes \<Rightarrow>
                                      (case simulate_random sel (sort sizes) w3 of
                                         (Inl e, w4) \<Rightarrow> (Inl e, w4)
                                       | (Inr new_sim, w4) \<Rightarrow>
                                           (Inr (),
                                            w4\<lparr>store :=
                                                 update_surrogates new_surr new_sim (store w4)\<rparr>))))
                           else (Inr (), w2)))))))"

subsection \<open>What a label is meant to show\<close>

text \<open>
  The docstring of \<open>surrogate_labels\<close>: the label of a data point indicates ``which
  surrogate selection strategies selected that point''. \<open>selecting_strategies\<close> lists, in
  the order of the results, the strategies whose index array contains the row;
  \<open>collected_names\<close> lists a strategy once for every occurrence of the row in its array.
\<close>

definition selecting_strategies :: "surr_dict \<Rightarrow> nat \<Rightarrow> string list" where
  "selecting_strategies items i = map fst (filter (\<lambda>(strat, idx, sc). i \<in> set idx) items)"

definition collected_names :: "surr_dict \<Rightarrow> nat \<Rightarrow> string list" where
  "collected_names items i =
     concat (map (\<lambda>(strat, idx, sc). replicate (count_list idx i) strat) items)"

subsection \<open>Concrete inputs\<close>

text \<open>
  Inputs at which the definitions are evaluated below: a descriptor table of \<open>N\<close> rows
  with distinct identifiers, loaded into a fresh store; the sidebar as it is after loading
  (automated selection on, the default strategy, no user selection) with \<open>x\<close> typed into
  the numeric input; and a selector that returns the same selection at every call.
\<close>

definition example_desc :: "nat \<Rightarrow> unit DataFrame" where
  "example_desc N = map (\<lambda>i. (replicate (Suc i) CHR ''x'', ())) [0..<N]"

definition example_world :: "nat \<Rightarrow> (unit, unit) world" where
  "example_world N = init_world\<lparr>store := update_data (example_desc N) (example_desc N) init_store\<rparr>"

definition example_inputs :: "real \<Rightarrow> inputs" where
  "example_inputs x =
     \<lparr> input_include_auto = True, input_n = Some x, input_strats = [''hierarchical''],
       input_include_user = False, input_user_ids = [] \<rparr>"

definition example_selector :: selector where
  "example_selector = \<lparr> select_result = (\<lambda>k x s. Inr ([0], 0)), score_result = (\<lambda>idx. Inr 0) \<rparr>"

section \<open>The selection and scoring engine\<close>

text \<open>
  Modelled from the spec: the module utils/surrogate\_selection (the class
  \<open>SurrogateSelection\<close> with its strategies and its score) is imported by the sidebar and
  is not among the sources. The definitions of this section follow sections 3, 4 and 7 of
  the specification. A population is the list of the feature vectors in positional order.
  The arguments of \<open>select\<close> are those the sidebar passes: a number, and a strategy given
  as a member of the enumeration \<open>Strategy\<close> or as a string.
\<close>

text \<open>Modelled from the spec: the error taxonomy of the engine (section 7).\<close>

datatype engine_error = InvalidSizeError | InvalidSelectionError | UnknownStrategyError

text \<open>Modelled from the spec: the embedding population, an N x D matrix (section 3).\<close>

type_synonym population = "real list list"

text \<open>Modelled from the spec: the Euclidean distance in the feature space (section 4.1).\<close>

definition euclidean :: "real list \<Rightarrow> real list \<Rightarrow> real" where
  "euclidean a b = sqrt (\<Sum>(x, y) \<leftarrow> zip a b. (x - y)\<^sup>2)"

text \<open>
  Modelled from the spec: the representativeness metric (section 4.1). For every entity
  the distance to the nearest member of the subset, averaged over all \<open>N\<close> entities. An
  empty subset, an index outside \<open>[0, N)\<close> and a duplicate index are rejected.
\<close>

definition nearest_distance :: "population \<Rightarrow> int list \<Rightarrow> nat \<Rightarrow> real" where
  "nearest_distance P S i = Min ((\<lambda>j. euclidean (P ! i) (P ! nat j)) ` set S)"

text \<open>
  Modelled from the spec: \<open>score(subset)\<close> of the selector (sections 4.1 and 4.3), with its
  InvalidSelectionError.
\<close>

definition selector_score :: "population \<Rightarrow> int list \<Rightarrow> engine_error + real" where
  "selector_score P S =
     (if S = [] \<or> list_ex (\<lambda>j. j < 0 \<or> int (length P) \<le> j) S \<or> \<not> distinct S
      then Inl InvalidSelectionError
      else Inr ((\<Sum>i \<leftarrow> [0..<length P]. nearest_distance P S i) / real (length P)))"

text \<open>
  Modelled from the spec: the RANDOM strategy (section 4.2) draws \<open>size\<close> distinct positions
  without replacement. The generator is a parameter (section 9): \<open>rng t\<close> is its \<open>t\<close>-th
  number, and each draw takes the element at that number modulo the size of the pool of
  positions not drawn yet.
\<close>

fun draw :: "(nat \<Rightarrow> nat) \<Rightarrow> nat \<Rightarrow> nat list \<Rightarrow> nat \<Rightarrow> nat list" where
  "draw rng t pool 0 = []"
| "draw rng t pool (Suc k) =
     (if pool = [] then []
      else (let j = rng t mod length pool
            in pool ! j # draw rng (Suc t) (take j pool @ drop (Suc j) pool) k))"

text \<open>
  Modelled from the spec: the HIERARCHICAL strategy (section 4.2). Agglomerative
  clustering starts from one cluster per entity and merges, one pair at a time, the two
  clusters at the least linkage distance until \<open>size\<close> clusters are left. The spec fixes
  the linkage only as based on the pairwise Euclidean distances, so the linkage is a
  parameter that reduces the list of the pairwise distances between two clusters to one
  number; among pairs at the same distance the first in the enumeration is merged. The
  merged cluster takes the place of the first of the two.
\<close>

definition cluster_distance ::
  "(real list \<Rightarrow> real) \<Rightarrow> population \<Rightarrow> nat list \<Rightarrow> nat list \<Rightarrow> real" where
  "cluster_distance linkage P A B = linkage (concat (map (\<lambda>i. map (\<lambda>j. euclidean (P ! i) (P ! j)) B) A))"

text \<open>
  Modelled from the spec: the pairs of positions of two different clusters, in the order
  in which they are compared.
\<close>

definition cluster_pairs :: "nat \<Rightarrow> (nat \<times> nat) list" where
  "cluster_pairs n = concat (map (\<lambda>b. map (\<lambda>a. (a, b)) [0..<b]) [0..<n])"

text \<open>
  Modelled from the spec: one merge. The clusters at positions \<open>a < b\<close> become one
  cluster at position \<open>a\<close>.
\<close>

definition merge_at :: "nat list list \<Rightarrow> nat \<times> nat \<Rightarrow> nat list list" where
  "merge_at cs p =
     (case p of (a, b) \<Rightarrow>
        take a cs @ [cs ! a @ cs ! b] @ take (b - Suc a) (drop (Suc a) cs) @ drop (Suc b) cs)"

text \<open>
  Modelled from the spec: the merge of the two clusters at the least linkage distance;
  fewer than two clusters are left as they are.
\<close>

definition merge_closest ::
  "(real list \<Rightarrow> real) \<Rightarrow> population \<Rightarrow> nat list list \<Rightarrow> nat list list" where
  "merge_closest linkage P cs =
     (if length cs < 2 then cs
      else merge_at cs
             (arg_min_list (\<lambda>(a, b). cluster_distance linkage P (cs ! a) (cs ! b))
                (cluster_pairs (length cs))))"

text \<open>Modelled from the spec: \<open>m\<close> merges in a row.\<close>

fun agglomerate ::
  "(real list \<Rightarrow> real) \<Rightarrow> population \<Rightarrow> nat \<Rightarrow> nat list list \<Rightarrow> nat list list" where
  "agglomerate linkage P 0 cs = cs"
| "agglomerate linkage P (Suc m) cs = agglomerate linkage P m (merge_closest linkage P cs)"

text \<open>
  Modelled from the spec: from each cluster the entity closest to the cluster's centroid,
  a tie going to the smallest positional index (section 4.2).
\<close>

definition centroid :: "population \<Rightarrow> nat list \<Rightarrow> real list" where
  "centroid P C =
     map (\<lambda>d. (\<Sum>i \<leftarrow> C. P ! i ! d) / real (length C)) [0..<length (P ! hd C)]"

text \<open>
  Modelled from the spec: the member with the least distance, among equal distances the
  smallest index.
\<close>

fun pick_min :: "(nat \<Rightarrow> real) \<Rightarrow> nat \<Rightarrow> nat list \<Rightarrow> nat" where
  "pick_min f best [] = best"
| "pick_min f best (x # xs) =
     (if f x < f best \<or> (f x = f best \<and> x < best) then pick_min f x xs
      else pick_min f best xs)"

text \<open>Modelled from the spec: the representative of a cluster (section 4.2).\<close>

definition representative :: "population \<Rightarrow> nat list \<Rightarrow> nat" where
  "representative P C = pick_min (\<lambda>i. euclidean (P ! i) (centroid P C)) (hd C) (tl C)"

text \<open>
  Modelled from the spec: the clustering into \<open>k\<close> clusters, by \<open>N - k\<close> merges from the
  \<open>N\<close> one-entity clusters.
\<close>

definition clusters_of :: "(real list \<Rightarrow> real) \<Rightarrow> population \<Rightarrow> nat \<Rightarrow> nat list list" where
  "clusters_of linkage P k =
     agglomerate linkage P (length P - k) (map (\<lambda>i. [i]) [0..<length P])"

text \<open>
  Modelled from the spec: the size a strategy accepts (section 4.2), a concrete positive
  integer count that is not above \<open>N\<close>. The sidebar passes the Python number it was given,
  so a size is a real number here, and one that is not a whole number is not accepted.
\<close>

definition valid_size :: "population \<Rightarrow> real \<Rightarrow> bool" where
  "valid_size P size_in =
     (size_in = of_int \<lfloor>size_in\<rfloor> \<and> 1 \<le> size_in \<and> size_in \<le> real (length P))"

text \<open>
  Modelled from the spec: the common contract of the strategies (section 4.2) and the
  error taxonomy (section 7). A size that is not a whole number in \<open>[1, N]\<close> is an
  InvalidSizeError; so is, for HIERARCHICAL, a size above the number of distinct feature
  vectors, for which the requested number of distinct clusters cannot be produced.
\<close>

definition execute ::
  "(real list \<Rightarrow> real) \<Rightarrow> (nat \<Rightarrow> nat) \<Rightarrow> population \<Rightarrow> real \<Rightarrow> Strategy \<Rightarrow> engine_error + nat list" where
  "execute linkage rng P size_in strategy =
     (if \<not> valid_size P size_in then Inl InvalidSizeError
      else (let k = nat \<lfloor>size_in\<rfloor>
            in (case strategy of
                  RANDOM \<Rightarrow> Inr (draw rng 0 [0..<length P] k)
                | HIERARCHICAL \<Rightarrow>
                    (if length (remdups P) < k then Inl InvalidSizeError
                     else Inr (map (representative P) (clusters_of linkage P k))))))"

text \<open>
  Modelled from the spec: the resolution of a strategy token to its algorithm (sections
  4.3 and 7). A member of the enumeration is recognised; a string, as the sidebar passes
  for the real selection, is recognised when it is the value of a member. The values of
  the members are not in the sources: \<open>vals\<close> gives them.
\<close>

definition resolve_strategy :: "(Strategy \<Rightarrow> string) \<Rightarrow> strategy_arg \<Rightarrow> engine_error + Strategy" where
  "resolve_strategy vals tok =
     (case tok of
        ByMember s \<Rightarrow> Inr s
      | ByValue v \<Rightarrow>
          (case filter (\<lambda>s. vals s = v) [HIERARCHICAL, RANDOM] of
             [] \<Rightarrow> Inl UnknownStrategyError
           | s # rest \<Rightarrow> Inr s))"

text \<open>
  Modelled from the spec: the operations of the Surrogate Selector (section 4.3).
  \<open>select\<close> resolves the strategy first, an unrecognised token failing before any
  computation (section 7), then runs the strategy with the size and scores the subset it
  returned.
\<close>

definition selector_select ::
  "(Strategy \<Rightarrow> string) \<Rightarrow> (real list \<Rightarrow> real) \<Rightarrow> (nat \<Rightarrow> nat) \<Rightarrow> population \<Rightarrow> real \<Rightarrow> strategy_arg
     \<Rightarrow> engine_error + (nat list \<times> real)" where
  "selector_select vals linkage rng P size_in tok =
     (case resolve_strategy vals tok of
        Inl e \<Rightarrow> Inl e
      | Inr strategy \<Rightarrow>
          (case execute linkage rng P size_in strategy of
             Inl e \<Rightarrow> Inl e
           | Inr S \<Rightarrow>
               (case selector_score P (map int S) of
                  Inl e \<Rightarrow> Inl e
                | Inr sc \<Rightarrow> Inr (S, sc))))"

text \<open>
  Modelled from the spec: values for the members of the enumeration, at which the
  definitions are evaluated below.
\<close>

fun example_values :: "Strategy \<Rightarrow> string" where
  "example_values HIERARCHICAL = ''hierarchical''"
| "example_values RANDOM = ''random''"

text \<open>
  The clusters partition the positions \<open>0..N-1\<close>: every position lies in exactly one
  cluster, and no cluster is empty.
\<close>

definition partition_of :: "nat \<Rightarrow> nat list list \<Rightarrow> bool" where
  "partition_of N cs = (distinct (concat cs) \<and> set (concat cs) = {0..<N} \<and> [] \<notin> set cs)"

section \<open>Properties of the data store\<close>

text \<open>
  Claim C8. Loading a dataset (\<open>DataStore.update_data\<close>, and the callback \<open>_set_data\<close> of
  dashboard/app.py) leaves the stored selection results and the stored simulation
  results empty, together with the new descriptors and the trimmed data: no result
  computed on an earlier dataset is left in the store, and every row of the new dataset
  is labelled \<open>none\<close>.
\<close>

theorem update_data_clears_derived_state:
  "surr (update_data nd ne st) = [] \<and> sim (update_data nd ne st) = []
   \<and> desc (update_data nd ne st) = ne \<and> data (update_data nd ne st) = trim nd ne
   \<and> surr (set_data nd ne st) = [] \<and> sim (set_data nd ne st) = []
   \<and> desc (set_data nd ne st) = ne \<and> data (set_data nd ne st) = trim nd ne
   \<and> surrogate_labels (update_data nd ne st) = Inr (replicate (shape0 ne) ''none'')
   \<and> surrogate_labels (set_data nd ne st) = Inr (replicate (shape0 ne) ''none'')"
  by (simp add: update_data_def set_data_def surrogate_labels_def label_of_def Let_def)

section \<open>Properties of the user's subset\<close>


text \<open>
  An entered line that ends in a NUL character selects the row named by the line without
  it.
\<close>

lemma user_idx_trailing_nul:
  "user_idx [(''a'', ()), (''b'', ())] [CHR ''a'', CHR 0x00] = [0]"
  by code_simp


section \<open>Properties of the baseline simulation\<close>

lemma np_repeat_Cons: "np_repeat (x # xs) k = replicate k x @ np_repeat xs k"
  by (simp add: np_repeat_def)

lemma length_np_repeat: "length (np_repeat xs k) = k * length xs"
  by (induction xs) (simp_all add: np_repeat_def)

lemma random_scores_ok:
  assumes "\<forall>(i, y) \<in> set (enumerate (length (calls w)) (replicate k x)).
             \<not> isl (select_result sel i y (ByMember RANDOM))"
  shows "random_scores sel x k w =
           (Inr (map (\<lambda>(i, y). snd (projr (select_result sel i y (ByMember RANDOM))))
                   (enumerate (length (calls w)) (replicate k x))),
            w\<lparr>calls := calls w @ map (\<lambda>y. (y, ByMember RANDOM)) (replicate k x)\<rparr>)"
  using assms
proof (induction k arbitrary: w)
  case 0
  then show ?case by simp
next
  case (Suc k)
  obtain r where r: "select_result sel (length (calls w)) x (ByMember RANDOM) = Inr r"
    using Suc.prems by (cases "select_result sel (length (calls w)) x (ByMember RANDOM)") auto
  let ?w = "w\<lparr>calls := calls w @ [(x, ByMember RANDOM)]\<rparr>"
  have "\<forall>(i, y) \<in> set (enumerate (length (calls ?w)) (replicate k x)).
             \<not> isl (select_result sel i y (ByMember RANDOM))"
    using Suc.prems by simp
  from Suc.IH[OF this] r show ?case
    by (simp add: call_select_def replicate_append_same)
qed

lemma simulate_loop_ok:
  assumes "\<forall>(i, y) \<in> set (enumerate (length (calls w)) (np_repeat ns RANDOM_REPS)).
             \<not> isl (select_result sel i y (ByMember RANDOM))"
  shows "simulate_loop sel ns scores w =
           (Inr (scores @ map (\<lambda>(i, y). snd (projr (select_result sel i y (ByMember RANDOM))))
                   (enumerate (length (calls w)) (np_repeat ns RANDOM_REPS))),
            w\<lparr>calls := calls w @ map (\<lambda>y. (y, ByMember RANDOM)) (np_repeat ns RANDOM_REPS)\<rparr>)"
  using assms
proof (induction ns arbitrary: w scores)
  case Nil
  then show ?case by (simp add: np_repeat_def)
next
  case (Cons x ns)
  let ?R = "RANDOM_REPS"
  let ?w = "w\<lparr>calls := calls w @ map (\<lambda>y. (y, ByMember RANDOM)) (replicate ?R x)\<rparr>"
  have a: "\<forall>(i, y) \<in> set (enumerate (length (calls w)) (replicate ?R x)).
             \<not> isl (select_result sel i y (ByMember RANDOM))"
    using Cons.prems by (simp add: np_repeat_Cons enumerate_append_eq)
  have b: "\<forall>(i, y) \<in> set (enumerate (length (calls ?w)) (np_repeat ns ?R)).
             \<not> isl (select_result sel i y (ByMember RANDOM))"
    using Cons.prems by (simp add: np_repeat_Cons enumerate_append_eq)
  show ?case
    by (simp add: random_scores_ok[OF a] Cons.IH[OF b] np_repeat_Cons enumerate_append_eq
        del: replicate.simps map_replicate)
qed

lemma nth_np_repeat: "j < length ns \<Longrightarrow> r < k \<Longrightarrow> np_repeat ns k ! (j * k + r) = ns ! j"
proof (induction ns arbitrary: j)
  case Nil
  then show ?case by simp
next
  case (Cons x ns)
  show ?case
  proof (cases j)
    case 0
    with Cons.prems show ?thesis by (simp add: np_repeat_Cons nth_append)
  next
    case (Suc j')
    with Cons.prems have "np_repeat ns k ! (j' * k + r) = ns ! j'"
      using Cons.IH[of j'] by simp
    moreover have "k + j' * k + r - k = j' * k + r" by simp
    ultimately show ?thesis using Suc by (simp add: np_repeat_Cons nth_append)
  qed
qed

lemma count_list_replicate: "count_list (replicate k x) y = (if x = y then k else 0)"
  by (induction k) auto

lemma count_list_np_repeat: "count_list (np_repeat ns k) x = k * count_list ns x"
  by (induction ns) (auto simp: np_repeat_Cons count_list_replicate np_repeat_def)

text \<open>
  Claim C2. With \<open>RANDOM_REPS = 100\<close>, and as long as no call of the selector raises,
  \<open>_simulate_random\<close> calls \<open>select(size, RANDOM)\<close> for each size of the list
  \<open>RANDOM_REPS\<close> times in a row and nothing else, keeps of every call the score only,
  and returns the scores with the parallel list of sizes: both have \<open>RANDOM_REPS\<close>
  entries per listed size, the sizes in blocks in the order of the list, and the score at
  position \<open>i\<close> is the one returned by the call made for the size label at position \<open>i\<close>.
\<close>

theorem simulate_random_blocks:
  assumes ok: "\<forall>i < RANDOM_REPS * length ns.
                 \<not> isl (select_result sel (length (calls w) + i)
                          (np_repeat ns RANDOM_REPS ! i) (ByMember RANDOM))"
  shows "RANDOM_REPS = 100 \<and>
    (\<exists>scores w'.
       simulate_random sel ns w
         = (Inr [(''scores'', scores), (''ns'', np_repeat ns RANDOM_REPS)], w')
       \<and> w' = w\<lparr>calls := calls w @ map (\<lambda>y. (y, ByMember RANDOM)) (np_repeat ns RANDOM_REPS)\<rparr>
       \<and> length scores = RANDOM_REPS * length ns
       \<and> length (np_repeat ns RANDOM_REPS) = RANDOM_REPS * length ns
       \<and> (\<forall>j < length ns. \<forall>r < RANDOM_REPS. np_repeat ns RANDOM_REPS ! (j * RANDOM_REPS + r) = ns ! j)
       \<and> (\<forall>x. count_list (np_repeat ns RANDOM_REPS) x = RANDOM_REPS * count_list ns x)
       \<and> (\<forall>i < RANDOM_REPS * length ns.
             \<exists>idx. select_result sel (length (calls w) + i)
                     (np_repeat ns RANDOM_REPS ! i) (ByMember RANDOM) = Inr (idx, scores ! i)))"
proof -
  let ?xs = "np_repeat ns RANDOM_REPS"
  let ?c = "length (calls w)"
  let ?f = "\<lambda>(i, y). snd (projr (select_result sel i y (ByMember RANDOM)))"
  let ?scores = "map ?f (enumerate ?c ?xs)"
  have len: "length ?xs = RANDOM_REPS * length ns" by (rule length_np_repeat)
  have a: "\<forall>(i, y) \<in> set (enumerate ?c ?xs). \<not> isl (select_result sel i y (ByMember RANDOM))"
  proof (intro ballI)
    fix p assume p: "p \<in> set (enumerate ?c ?xs)"
    obtain a y where ay: "p = (a, y)" by (cases p)
    from p ay have lo: "?c \<le> a" and hi: "a < ?c + length ?xs" and y: "y = ?xs ! (a - ?c)"
      by (auto simp: in_set_enumerate_eq)
    from lo hi have "a - ?c < RANDOM_REPS * length ns" using len by simp
    with ok have "\<not> isl (select_result sel (?c + (a - ?c)) (?xs ! (a - ?c)) (ByMember RANDOM))"
      by blast
    with lo y ay show "case p of (i, y) \<Rightarrow> \<not> isl (select_result sel i y (ByMember RANDOM))"
      by simp
  qed
  have run: "simulate_random sel ns w
      = (Inr [(''scores'', ?scores), (''ns'', ?xs)],
         w\<lparr>calls := calls w @ map (\<lambda>y. (y, ByMember RANDOM)) ?xs\<rparr>)"
    by (simp add: simulate_random_def simulate_loop_ok[OF a])
  have nth: "\<exists>idx. select_result sel (?c + i) (?xs ! i) (ByMember RANDOM) = Inr (idx, ?scores ! i)"
    if "i < RANDOM_REPS * length ns" for i
  proof -
    from that ok obtain r where r: "select_result sel (?c + i) (?xs ! i) (ByMember RANDOM) = Inr r"
      by (cases "select_result sel (?c + i) (?xs ! i) (ByMember RANDOM)") auto
    have "?scores ! i = snd r"
      using that len r by (simp add: nth_enumerate_eq)
    with r show ?thesis by (cases r) auto
  qed
  show ?thesis
    using run len nth nth_np_repeat[of _ ns _ RANDOM_REPS] count_list_np_repeat[of ns RANDOM_REPS]
    by (auto simp: RANDOM_REPS_def)
qed

theorem simulate_random_blocks_witness:
  "\<exists>scores w'.
     simulate_random \<lparr>select_result = (\<lambda>k x s. Inr ([0], real k)), score_result = (\<lambda>idx. Inr 0)\<rparr>
        [2, 5] (init_world :: (unit, unit) world)
       = (Inr [(''scores'', scores), (''ns'', np_repeat [2, 5] RANDOM_REPS)], w')
     \<and> length scores = 200 \<and> length (calls w') = 200"
  using simulate_random_blocks
          [of "[2, 5]" "\<lparr>select_result = (\<lambda>k x s. Inr ([0], real k)), score_result = (\<lambda>idx. Inr 0)\<rparr>"
              "init_world :: (unit, unit) world"]
  by (auto simp: length_np_repeat init_world_def)

section \<open>The selection effect on its successful path\<close>

lemma update_ne_Nil: "AList.update k v al \<noteq> []"
  by (cases al) auto

lemma dict_merge_ne_Nil: "a \<noteq> [] \<Longrightarrow> dict_merge a b \<noteq> []"
proof (induction b arbitrary: a)
  case Nil
  then show ?case by (simp add: dict_merge_def)
next
  case (Cons p b)
  obtain k v where p: "p = (k, v)" by (cases p)
  have "dict_merge a (p # b) = dict_merge (AList.update k v a) b"
    by (simp add: dict_merge_def p)
  with Cons.IH[of "AList.update k v a"] show ?case
    by (simp only: update_ne_Nil not_False_eq_True)
qed


lemma process_auto_from_ok:
  assumes "\<forall>k y s. \<not> isl (select_result sel k y s)"
  shows "\<exists>acc'. process_auto_from sel x strats acc w
           = (Inr acc', w\<lparr>calls := calls w @ map (\<lambda>s. (x, ByValue s)) strats\<rparr>)
         \<and> (strats \<noteq> [] \<or> acc \<noteq> [] \<longrightarrow> acc' \<noteq> [])"
proof (induction strats arbitrary: acc w)
  case Nil
  then show ?case by simp
next
  case (Cons s strats)
  from assms have "\<not> isl (select_result sel (length (calls w)) x (ByValue s))" by blast
  then obtain r where r: "select_result sel (length (calls w)) x (ByValue s) = Inr r"
    by (cases "select_result sel (length (calls w)) x (ByValue s)") auto
  from Cons[of "AList.update s r acc" "w\<lparr>calls := calls w @ [(x, ByValue s)]\<rparr>"] r
  show ?case by (auto simp: call_select_def update_ne_Nil)
qed

lemma simulate_random_never_fails:
  assumes "\<forall>k y s. \<not> isl (select_result sel k y s)"
  shows "\<exists>scores. simulate_random sel ns w
           = (Inr [(''scores'', scores), (''ns'', np_repeat ns RANDOM_REPS)],
              w\<lparr>calls := calls w @ map (\<lambda>y. (y, ByMember RANDOM)) (np_repeat ns RANDOM_REPS)\<rparr>)"
proof -
  have "\<forall>(i, y) \<in> set (enumerate (length (calls w)) (np_repeat ns RANDOM_REPS)).
             \<not> isl (select_result sel i y (ByMember RANDOM))"
    using assms by auto
  from simulate_loop_ok[OF this, of "[]"] show ?thesis
    by (simp add: simulate_random_def)
qed

lemma select_ok:
  fixes w :: "('d, 'e) world"
  assumes d: "desc (store w) \<noteq> []"
    and nf: "\<forall>k y s. \<not> isl (select_result (mk (desc (store w))) k y s)"
    and sf: "input_include_user inp \<longrightarrow> (\<forall>idx. \<not> isl (score_result (mk (desc (store w))) idx))"
    and auto: "input_include_auto inp" "input_n inp = Some x" "0 < x" "input_strats inp \<noteq> []"
    and ns: "ns' = RANDOM_NS w @
                (if input_include_user inp \<and> user_idx (desc (store w)) (input_user_ids inp) \<noteq> []
                 then [Some (real (length (user_idx (desc (store w)) (input_user_ids inp))))]
                 else []) @ [Some x]"
    and sizes: "unique_int_ns (shape0 (desc (store w))) ns' = Inr sizes"
  shows "\<exists>w'. select mk inp w = (Inr (), w')
           \<and> RANDOM_NS w' = ns'
           \<and> calls w' = calls w @ map (\<lambda>s. (x, ByValue s)) (input_strats inp)
                          @ map (\<lambda>y. (y, ByMember RANDOM)) (np_repeat (sort sizes) RANDOM_REPS)
           \<and> desc (store w') = desc (store w)
           \<and> map_of (sim (store w')) ''ns'' = Some (np_repeat (sort sizes) RANDOM_REPS)"
proof -
  let ?d = "desc (store w)"
  let ?sel = "mk ?d"
  let ?uidx = "user_idx ?d (input_user_ids inp)"
  let ?iu = "input_include_user inp"
  obtain acc' where acc: "process_auto_from ?sel x (input_strats inp) [] w
        = (Inr acc', w\<lparr>calls := calls w @ map (\<lambda>s. (x, ByValue s)) (input_strats inp)\<rparr>)"
      and ne: "acc' \<noteq> []"
    using process_auto_from_ok[OF nf, of x "input_strats inp" "[]" w] auto(4) by blast
  let ?w1 = "w\<lparr>calls := calls w @ map (\<lambda>s. (x, ByValue s)) (input_strats inp)\<rparr>"
  have p1: "process_conditional True ?sel validate_auto process_auto (Some x, input_strats inp) w
              = (Inr acc', ?w1)"
    using auto acc by (simp add: process_conditional_def validate_auto_def process_auto_def)
  obtain us w2 where p2: "process_conditional ?iu ?sel validate_user process_user ?uidx ?w1
              = (Inr us, w2)"
      and w2: "RANDOM_NS w2 = RANDOM_NS w" "calls w2 = calls ?w1" "store w2 = store w"
  proof (cases "?iu \<and> ?uidx \<noteq> []")
    case True
    from sf True have "\<not> isl (score_result ?sel ?uidx)" by blast
    then obtain sc where "score_result ?sel ?uidx = Inr sc"
      by (cases "score_result ?sel ?uidx") auto
    with True that[of "[(''user'', (?uidx, sc))]" ?w1] show ?thesis
      by (simp add: process_conditional_def validate_user_def process_user_def)
  next
    case False
    show ?thesis
    proof (cases ?iu)
      case True
      with False that[of "[]" "error_notifications [NO_USER] ?w1"] show ?thesis
        by (simp add: process_conditional_def validate_user_def error_notifications_def)
    next
      case False
      with that[of "[]" ?w1] show ?thesis
        by (simp add: process_conditional_def)
    qed
  qed
  have m: "dict_merge acc' us \<noteq> []" using ne by (rule dict_merge_ne_Nil)
  let ?w3 = "assemble_ns ?iu ?uidx True (Some x) w2"
  have w3: "RANDOM_NS ?w3 = ns'" "calls ?w3 = calls ?w1" "store ?w3 = store w"
    using w2 ns by (auto simp: assemble_ns_def ns_append_def Let_def)
  obtain scores where s: "simulate_random ?sel (sort sizes) ?w3
       = (Inr [(''scores'', scores), (''ns'', np_repeat (sort sizes) RANDOM_REPS)],
          ?w3\<lparr>calls := calls ?w3 @ map (\<lambda>y. (y, ByMember RANDOM)) (np_repeat (sort sizes) RANDOM_REPS)\<rparr>)"
    using simulate_random_never_fails[OF nf] by blast
  have "select mk inp w = (Inr (),
          (?w3\<lparr>calls := calls ?w3 @ map (\<lambda>y. (y, ByMember RANDOM)) (np_repeat (sort sizes) RANDOM_REPS)\<rparr>)
            \<lparr>store := update_surrogates (dict_merge acc' us)
                [(''scores'', scores), (''ns'', np_repeat (sort sizes) RANDOM_REPS)] (store w)\<rparr>)"
    using d auto(1,2) p1 p2 m w3 sizes s
    by (simp add: select_def empty_df_def Let_def)
  then show ?thesis
    using w3 by (simp add: update_surrogates_def)
qed

section \<open>Evaluating the selection effect\<close>

lemma py_round_of_int [simp]: "py_round (of_int k) = k"
  by (simp add: py_round_def)

lemma example_world_facts:
  "desc (store (example_world N)) = example_desc N"
  "RANDOM_NS (example_world N) = RANDOM_NS_init"
  "calls (example_world N) = []"
  by (simp_all add: example_world_def update_data_def init_world_def Let_def)

lemma example_desc_facts:
  "shape0 (example_desc N) = N" "(example_desc N = []) = (N = 0)"
  by (simp_all add: example_desc_def shape0_def)

lemma bitlens:
  "bitlen 99 = 7" "bitlen 9 = 4" "bitlen 4 = 3" "bitlen 1 = 1" "bitlen 10 = 4" "bitlen 20 = 5"
  "bitlen 50 = 6"
  by code_simp+

lemma fl_literals:
  "fl (1 / 100) = 5764607523034235 / 2 ^ 59"
  "fl (1 / 10) = 3602879701896397 / 2 ^ 55"
  "fl (1 / 5) = 3602879701896397 / 2 ^ 54"
  "fl (1 / 2) = 1 / 2"
  by (simp_all add: fl_def binade_def pow2_def py_round_def bitlens Let_def)

lemma reference_sizes:
  "effective_size 100 (Some (fl (1 / 100))) = Inr 1"
  "effective_size 100 (Some (fl (1 / 10))) = Inr 10"
  "effective_size 100 (Some (fl (1 / 5))) = Inr 20"
  "effective_size 100 (Some (fl (1 / 2))) = Inr 50"
  by (simp_all add: fl_literals py_times_def fl_def binade_def pow2_def py_round_def bitlens Let_def)

text \<open>
  With 150 rows the fraction 0.07 resolves to 11: the float product \<open>150 * 0.07\<close> lies above
  10.5, where the product of the two real numbers is 10.5 and rounds to 10.
\<close>

lemma bitlens_150: "bitlen 14 = 4" "bitlen 10 = 4"
  by code_simp+

lemma rounded_product_size:
  "effective_size 150 (Some (fl (7 / 100))) = Inr 11" "py_round (150 * (7 / 100)) = 10"
  by (simp_all add: py_times_def fl_def binade_def pow2_def py_round_def bitlens_150 Let_def)

lemma effective_size_count: "1 \<le> x \<Longrightarrow> effective_size N (Some x) = Inr x"
  by simp

lemma reference_distinct:
  "fl (1 / 100) \<noteq> fl (1 / 10)" "fl (1 / 100) \<noteq> fl (1 / 5)" "fl (1 / 100) \<noteq> fl (1 / 2)"
  "fl (1 / 10) \<noteq> fl (1 / 5)" "fl (1 / 10) \<noteq> fl (1 / 2)" "fl (1 / 5) \<noteq> fl (1 / 2)"
  "fl (1 / 100) < 1" "fl (1 / 10) < 1" "fl (1 / 5) < 1" "fl (1 / 2) < 1"
  by (simp_all add: fl_literals)


lemma sizes_20: "unique_int_ns 100 (RANDOM_NS_init @ [Some 20]) = Inr [1, 10, 20, 50, 20]"
  using reference_distinct
  by (simp add: unique_int_ns_def RANDOM_NS_init_def reference_sizes effective_size_count
      del: effective_size.simps)

lemma sizes_7_3: "unique_int_ns 100 (RANDOM_NS_init @ [Some 7] @ [Some 3]) = Inr [1, 10, 20, 50, 7, 3]"
  using reference_distinct
  by (simp add: unique_int_ns_def RANDOM_NS_init_def reference_sizes effective_size_count
      del: effective_size.simps)

lemma sizes_7: "unique_int_ns 100 (RANDOM_NS_init @ [Some 7]) = Inr [1, 10, 20, 50, 7]"
  using reference_distinct
  by (simp add: unique_int_ns_def RANDOM_NS_init_def reference_sizes effective_size_count
      del: effective_size.simps)

lemma sorts: "sort [1, 10, 50, 20::real] = [1, 10, 20, 50]"
  "sort [1, 10, 20, 50, 20::real] = [1, 10, 20, 20, 50]"
  "sort [1, 10, 20, 50, 7, 3::real] = [1, 3, 7, 10, 20, 50]"
  by simp_all

lemma sizes_3: "unique_int_ns 100 (RANDOM_NS_init @ [Some 3]) = Inr [1, 10, 20, 50, 3]"
  using reference_distinct
  by (simp add: unique_int_ns_def RANDOM_NS_init_def reference_sizes effective_size_count
      del: effective_size.simps)

lemma sort_3: "sort [1, 10, 20, 50, 3::real] = [1, 3, 10, 20, 50]"
  by simp

lemma example_select:
  assumes "0 < x" and "0 < N"
    and "unique_int_ns N (RANDOM_NS w @ [Some x]) = Inr sizes"
    and "desc (store w) = example_desc N"
  shows "\<exists>w'. select (\<lambda>d. example_selector) (example_inputs x) w = (Inr (), w')
           \<and> RANDOM_NS w' = RANDOM_NS w @ [Some x]
           \<and> calls w' = calls w @ [(x, ByValue ''hierarchical'')]
                          @ map (\<lambda>y. (y, ByMember RANDOM)) (np_repeat (sort sizes) RANDOM_REPS)
           \<and> desc (store w') = example_desc N
           \<and> map_of (sim (store w')) ''ns'' = Some (np_repeat (sort sizes) RANDOM_REPS)"
proof -
  have a: "desc (store w) \<noteq> []" using assms by (simp add: example_desc_facts)
  have b: "\<forall>k y s. \<not> isl (select_result ((\<lambda>d. example_selector) (desc (store w))) k y s)"
    by (simp add: example_selector_def)
  have c: "input_include_user (example_inputs x) \<longrightarrow>
      (\<forall>idx. \<not> isl (score_result ((\<lambda>d. example_selector) (desc (store w))) idx))"
    by (simp add: example_selector_def)
  have e: "RANDOM_NS w @ [Some x] = RANDOM_NS w @
      (if input_include_user (example_inputs x)
          \<and> user_idx (desc (store w)) (input_user_ids (example_inputs x)) \<noteq> []
       then [Some (real (length (user_idx (desc (store w)) (input_user_ids (example_inputs x)))))]
       else []) @ [Some x]"
    by (simp add: example_inputs_def)
  have f: "unique_int_ns (shape0 (desc (store w))) (RANDOM_NS w @ [Some x]) = Inr sizes"
    using assms by (simp add: example_desc_facts)
  from select_ok[of w "\<lambda>d. example_selector" "example_inputs x" x "RANDOM_NS w @ [Some x]" sizes,
       OF a b c _ _ assms(1) _ e f] assms(4)
  show ?thesis by (simp add: example_inputs_def)
qed



section \<open>The calls made by the selection effect\<close>








section \<open>Sizes passed to the selector\<close>





section \<open>The sizes handed to the simulation\<close>

text \<open>
  Claim C3, evaluated where it fails. With 100 rows loaded and 20 in the numeric input,
  the list handed to \<open>_simulate_random\<close> is \<open>[1, 10, 20, 20, 50]\<close>: duplicates are removed
  before the fraction 0.2 is resolved to the count 20, so the value 20 is simulated in two
  blocks.
\<close>

theorem simulated_sizes_repeat_a_value:
  "map_of (sim (store (snd (select (\<lambda>d. example_selector) (example_inputs 20) (example_world 100)))))
      ''ns'' = Some (np_repeat [1, 10, 20, 20, 50] RANDOM_REPS)
   \<and> \<not> distinct [1, 10, 20, 20, 50 :: real]"
proof -
  from example_select[of 20 100 "example_world 100" "[1, 10, 20, 50, 20]"]
  obtain w' where "select (\<lambda>d. example_selector) (example_inputs 20) (example_world 100) = (Inr (), w')"
    and "map_of (sim (store w')) ''ns'' = Some (np_repeat (sort [1, 10, 20, 50, 20]) RANDOM_REPS)"
    by (auto simp: example_world_facts sizes_20)
  then show ?thesis by (simp add: sorts)
qed

text \<open>
  Claim C4, evaluated where it fails. After an invocation with 7 in the numeric input the
  module's list \<open>RANDOM_NS\<close> holds 7 as a fifth element; a following invocation with 3
  simulates the sizes \<open>[1, 3, 7, 10, 20, 50]\<close>, where the same invocation on the fresh
  state simulates \<open>[1, 3, 10, 20, 50]\<close>.
\<close>

theorem sizes_persist_across_invocations:
  "RANDOM_NS (snd (select (\<lambda>d. example_selector) (example_inputs 7) (example_world 100)))
     = RANDOM_NS_init @ [Some 7]
   \<and> map_of (sim (store (snd (select (\<lambda>d. example_selector) (example_inputs 3)
         (snd (select (\<lambda>d. example_selector) (example_inputs 7) (example_world 100)))))))
      ''ns'' = Some (np_repeat [1, 3, 7, 10, 20, 50] RANDOM_REPS)
   \<and> map_of (sim (store (snd (select (\<lambda>d. example_selector) (example_inputs 3) (example_world 100)))))
      ''ns'' = Some (np_repeat [1, 3, 10, 20, 50] RANDOM_REPS)"
proof -
  from example_select[of 7 100 "example_world 100" "[1, 10, 20, 50, 7]"]
  obtain w1 where w1: "select (\<lambda>d. example_selector) (example_inputs 7) (example_world 100) = (Inr (), w1)"
    "RANDOM_NS w1 = RANDOM_NS_init @ [Some 7]" "desc (store w1) = example_desc 100"
    by (auto simp: example_world_facts sizes_7)
  from example_select[of 3 100 w1 "[1, 10, 20, 50, 7, 3]"] w1(2,3)
  obtain w2 where w2: "select (\<lambda>d. example_selector) (example_inputs 3) w1 = (Inr (), w2)"
    "map_of (sim (store w2)) ''ns'' = Some (np_repeat (sort [1, 10, 20, 50, 7, 3]) RANDOM_REPS)"
    using sizes_7_3 by auto
  from example_select[of 3 100 "example_world 100" "[1, 10, 20, 50, 3]"]
  obtain w3 where w3: "select (\<lambda>d. example_selector) (example_inputs 3) (example_world 100) = (Inr (), w3)"
    "map_of (sim (store w3)) ''ns'' = Some (np_repeat (sort [1, 10, 20, 50, 3]) RANDOM_REPS)"
    by (auto simp: example_world_facts sizes_3)
  from w1 w2 w3 show ?thesis by (simp add: sorts sort_3)
qed

section \<open>Properties of the labels\<close>

lemma append_labels_ok:
  assumes "\<forall>i \<in> set idx. i < length labels"
  shows "\<exists>labels'. append_labels strat idx labels = Inr labels'
           \<and> length labels' = length labels
           \<and> (\<forall>i < length labels. labels' ! i = labels ! i @ replicate (count_list idx i) strat)"
  using assms
proof (induction idx arbitrary: labels)
  case Nil
  then show ?case by simp
next
  case (Cons j idx)
  let ?l = "labels[j := labels ! j @ [strat]]"
  have j: "j < length labels" using Cons.prems by simp
  have "\<forall>i \<in> set idx. i < length ?l" using Cons.prems by simp
  from Cons.IH[OF this] obtain labels' where l: "append_labels strat idx ?l = Inr labels'"
    "length labels' = length labels"
    "\<forall>i < length labels. labels' ! i = ?l ! i @ replicate (count_list idx i) strat"
    by auto
  have "labels' ! i = labels ! i @ replicate (count_list (j # idx) i) strat"
    if "i < length labels" for i
    using l(3) that j by (cases "i = j") (simp_all add: replicate_app_Cons_same)
  with l j show ?case by simp
qed

lemma collect_labels_ok:
  assumes "\<forall>(strat, idx, sc) \<in> set items. \<forall>i \<in> set idx. i < length labels"
  shows "\<exists>labels'. collect_labels items labels = Inr labels'
           \<and> length labels' = length labels
           \<and> (\<forall>i < length labels. labels' ! i = labels ! i @ collected_names items i)"
  using assms
proof (induction items arbitrary: labels)
  case Nil
  then show ?case by (simp add: collected_names_def)
next
  case (Cons item items)
  obtain strat idx sc where item: "item = (strat, idx, sc)" by (cases item)
  have "\<forall>i \<in> set idx. i < length labels" using Cons.prems item by simp
  from append_labels_ok[OF this, of strat] obtain l1 where l1:
    "append_labels strat idx labels = Inr l1" "length l1 = length labels"
    "\<forall>i < length labels. l1 ! i = labels ! i @ replicate (count_list idx i) strat"
    by auto
  have "\<forall>(strat, idx, sc) \<in> set items. \<forall>i \<in> set idx. i < length l1"
    using Cons.prems l1(2) by simp
  from Cons.IH[OF this] obtain l2 where l2:
    "collect_labels items l1 = Inr l2" "length l2 = length l1"
    "\<forall>i < length l1. l2 ! i = l1 ! i @ collected_names items i"
    by auto
  from l1 l2 item show ?case by (simp add: collected_names_def)
qed

lemma collected_names_Nil_iff:
  "collected_names items i = [] \<longleftrightarrow> selecting_strategies items i = []"
  by (induction items) (auto simp: collected_names_def selecting_strategies_def count_list_0_iff)

lemma count_list_distinct:
  "distinct xs \<Longrightarrow> count_list xs x = (if x \<in> set xs then 1 else 0)"
  by (induction xs) auto

lemma collected_names_distinct:
  assumes "\<forall>(strat, idx, sc) \<in> set items. distinct idx"
  shows "collected_names items i = selecting_strategies items i"
  using assms
proof (induction items)
  case Nil
  then show ?case by (simp add: collected_names_def selecting_strategies_def)
next
  case (Cons item items)
  obtain strat idx sc where item: "item = (strat, idx, sc)" by (cases item)
  with Cons.prems have d: "distinct idx" by simp
  have c: "count_list idx i = (if i \<in> set idx then 1 else 0)"
    using d by (rule count_list_distinct)
  from Cons item c show ?case
    by (simp add: collected_names_def selecting_strategies_def)
qed

lemma surrogate_labels_collected:
  assumes "\<forall>(strat, idx, sc) \<in> set (surr st). \<forall>i \<in> set idx. i < shape0 (desc st)"
  shows "\<exists>ls. surrogate_labels st = Inr ls
           \<and> length ls = shape0 (desc st)
           \<and> (\<forall>i < shape0 (desc st).
                 ls ! i = (if selecting_strategies (surr st) i = [] then ''none''
                           else join ''&'' (sort (collected_names (surr st) i))))"
proof -
  let ?N = "shape0 (desc st)"
  have "\<forall>(strat, idx, sc) \<in> set (surr st). \<forall>i \<in> set idx. i < length (replicate ?N ([] :: string list))"
    using assms by simp
  from collect_labels_ok[OF this] obtain labels where l:
    "collect_labels (surr st) (replicate ?N []) = Inr labels" "length labels = ?N"
    "\<forall>i < ?N. labels ! i = collected_names (surr st) i"
    by auto
  have "surrogate_labels st = Inr (map label_of labels)"
    using l(1) by (simp add: surrogate_labels_def)
  moreover have "map label_of labels ! i = (if selecting_strategies (surr st) i = [] then ''none''
                           else join ''&'' (sort (collected_names (surr st) i)))"
    if "i < ?N" for i
    using that l(2,3) by (simp add: label_of_def collected_names_Nil_iff)
  ultimately show ?thesis
    using l(2) by auto
qed

text \<open>
  Two rows and the selection results \<open>{'user': ([1, 1], 0)}\<close>, every index in range: row 1
  is selected by the one strategy \<open>user\<close>, and its label is \<open>user&user\<close>, where the sorted
  names of the strategies that selected it, joined by \<open>&\<close>, are \<open>user\<close>.
\<close>

theorem surrogate_labels_repeated_index_counterexample:
  "surrogate_labels \<lparr> data = example_desc 2, desc = example_desc 2,
       surr = [(''user'', ([1, 1], 0))], sim = [] \<rparr>
     = Inr [''none'', ''user&user'']
   \<and> join ''&'' (sort (selecting_strategies [(''user'', ([1, 1], 0))] 1)) = ''user''
   \<and> 1 < shape0 (example_desc 2)"
  by code_simp

text \<open>
  Claim C10, amended. When every index stored in the selection results is below the
  number of rows and no index array holds an index twice (as the subsets of the selector
  and \<open>user_idx\<close> are), \<open>surrogate_labels\<close> raises nothing and returns one label per
  row, in row order. A row that no strategy selected is labelled \<open>none\<close>; any other row is
  labelled with the sorted names of the strategies that selected it, joined by \<open>&\<close>.
\<close>

theorem surrogate_labels_one_per_row:
  assumes "\<forall>(strat, idx, sc) \<in> set (surr st). \<forall>i \<in> set idx. i < shape0 (desc st)"
    and "\<forall>(strat, idx, sc) \<in> set (surr st). distinct idx"
  shows "\<exists>ls. surrogate_labels st = Inr ls
           \<and> length ls = shape0 (desc st)
           \<and> (\<forall>i < shape0 (desc st).
                 ls ! i = (if selecting_strategies (surr st) i = [] then ''none''
                           else join ''&'' (sort (selecting_strategies (surr st) i))))"
proof -
  from surrogate_labels_collected[OF assms(1)] obtain ls where ls:
    "surrogate_labels st = Inr ls" "length ls = shape0 (desc st)"
    "\<forall>i < shape0 (desc st).
        ls ! i = (if selecting_strategies (surr st) i = [] then ''none''
                  else join ''&'' (sort (collected_names (surr st) i)))"
    by blast
  from ls(3) have "\<forall>i < shape0 (desc st).
        ls ! i = (if selecting_strategies (surr st) i = [] then ''none''
                  else join ''&'' (sort (selecting_strategies (surr st) i)))"
    by (simp only: collected_names_distinct[OF assms(2)])
  with ls(1,2) show ?thesis by blast
qed

lemma surrogate_labels_example:
  "surrogate_labels \<lparr> data = example_desc 3, desc = example_desc 3,
       surr = [(''random'', ([0, 2], 1)), (''hierarchical'', ([2], 1 / 2))], sim = [] \<rparr>
     = Inr [''random'', ''none'', ''hierarchical&random'']"
  by code_simp

theorem surrogate_labels_one_per_row_witness:
  "\<exists>ls. surrogate_labels \<lparr> data = example_desc 3, desc = example_desc 3,
            surr = [(''random'', ([0, 2], 1)), (''hierarchical'', ([2], 1 / 2))], sim = [] \<rparr>
          = Inr ls
        \<and> length ls = 3 \<and> ls = [''random'', ''none'', ''hierarchical&random'']"
proof -
  let ?st = "\<lparr> data = example_desc 3, desc = example_desc 3,
            surr = [(''random'', ([0, 2], 1)), (''hierarchical'', ([2], 1 / 2))], sim = [] \<rparr>"
  have h: "\<forall>(strat, idx, sc) \<in> set (surr ?st). \<forall>i \<in> set idx. i < shape0 (desc ?st)"
    "\<forall>(strat, idx, sc) \<in> set (surr ?st). distinct idx"
    by (simp_all add: example_desc_facts)
  from surrogate_labels_one_per_row[OF h]
  have "\<exists>ls. surrogate_labels ?st = Inr ls \<and> length ls = shape0 (desc ?st)"
    by (elim exE conjE) (intro exI conjI)
  with surrogate_labels_example show ?thesis by (simp add: example_desc_facts)
qed

section \<open>Properties of the score\<close>

lemma euclidean_nonneg: "0 \<le> euclidean a b"
  unfolding euclidean_def
  by (rule real_sqrt_ge_zero, rule sum_list_nonneg) auto

lemma euclidean_self: "euclidean a a = 0"
proof -
  have "(\<Sum>(x, y) \<leftarrow> zip a a. (x - y)\<^sup>2) = 0"
    by (induction a) auto
  then show ?thesis by (simp add: euclidean_def)
qed

lemma nearest_distance_nonneg:
  assumes "S \<noteq> []"
  shows "0 \<le> nearest_distance P S i"
  unfolding nearest_distance_def
  using assms by (subst Min_ge_iff) (auto simp: euclidean_nonneg)

lemma nearest_distance_member:
  assumes "int i \<in> set S"
  shows "nearest_distance P S i = 0"
proof -
  have ne: "S \<noteq> []" using assms by auto
  have "euclidean (P ! i) (P ! nat (int i)) \<in> (\<lambda>j. euclidean (P ! i) (P ! nat j)) ` set S"
    using assms by (rule imageI)
  then have "nearest_distance P S i \<le> euclidean (P ! i) (P ! nat (int i))"
    unfolding nearest_distance_def by (intro Min_le) auto
  then have "nearest_distance P S i \<le> 0" by (simp add: euclidean_self)
  with nearest_distance_nonneg[OF ne, of P i] show ?thesis by simp
qed

lemma full_subset:
  assumes "\<forall>j \<in> set S. 0 \<le> j \<and> j < int N" "distinct S" "length S = N"
  shows "set S = int ` {0..<N}"
proof (rule card_subset_eq)
  show "finite (int ` {0..<N})" by simp
  show "set S \<subseteq> int ` {0..<N}"
  proof
    fix j assume "j \<in> set S"
    with assms(1) have "0 \<le> j" "j < int N" by auto
    then have "j = int (nat j)" "nat j \<in> {0..<N}" by auto
    then show "j \<in> int ` {0..<N}" by (metis imageI)
  qed
  show "card (set S) = card (int ` {0..<N})"
    using assms(2,3) by (simp add: distinct_card card_image)
qed

text \<open>
  Claim C5. For every population and every valid subset (not empty, every index in
  \<open>[0, N)\<close>, no index twice) the score is returned and is a real number that is not
  negative; for a subset with as many indices as the population has entities, which then
  contains every position, the score is exactly 0.
\<close>

theorem score_nonnegative_and_zero_on_full_subset:
  assumes "S \<noteq> []" and "\<forall>j \<in> set S. 0 \<le> j \<and> j < int (length P)" and "distinct S"
  shows "\<exists>sc. selector_score P S = Inr sc \<and> 0 \<le> sc \<and> (length S = length P \<longrightarrow> sc = 0)"
proof -
  let ?sc = "(\<Sum>i \<leftarrow> [0..<length P]. nearest_distance P S i) / real (length P)"
  have ok: "\<not> list_ex (\<lambda>j. j < 0 \<or> int (length P) \<le> j) S"
    using assms(2) by (auto simp: list_ex_iff)
  have run: "selector_score P S = Inr ?sc"
    using assms(1,3) ok by (simp add: selector_score_def)
  have "0 \<le> (\<Sum>i \<leftarrow> [0..<length P]. nearest_distance P S i)"
    by (rule sum_list_nonneg) (auto simp: nearest_distance_nonneg[OF assms(1)])
  then have nn: "0 \<le> ?sc" by simp
  have zero: "?sc = 0" if "length S = length P"
  proof -
    from full_subset[OF assms(2,3) that] have "int i \<in> set S" if "i < length P" for i
      using that by auto
    then have "(\<Sum>i \<leftarrow> [0..<length P]. nearest_distance P S i) = (\<Sum>i \<leftarrow> [0..<length P]. 0)"
      by (intro arg_cong[where f = sum_list] map_cong) (auto simp: nearest_distance_member)
    then show ?thesis by simp
  qed
  from run nn zero show ?thesis by blast
qed

theorem score_nonnegative_and_zero_on_full_subset_witness:
  "[1, 0 :: int] \<noteq> [] \<and> distinct [1, 0 :: int]
   \<and> (\<exists>sc. selector_score [[0], [3]] [1, 0] = Inr sc \<and> 0 \<le> sc \<and> sc = 0)"
  using score_nonnegative_and_zero_on_full_subset[of "[1, 0]" "[[0], [3]]"]
  by simp

section \<open>Properties of the hierarchical strategy\<close>

lemma split_two:
  assumes "a < b" "b < length cs"
  shows "cs = take a cs @ [cs ! a] @ take (b - Suc a) (drop (Suc a) cs) @ [cs ! b] @ drop (Suc b) cs"
proof -
  let ?r = "drop (Suc a) cs"
  have a: "cs = take a cs @ cs ! a # ?r"
    using assms by (intro id_take_nth_drop) simp
  have "b - Suc a < length ?r" using assms by simp
  then have "?r = take (b - Suc a) ?r @ ?r ! (b - Suc a) # drop (Suc (b - Suc a)) ?r"
    by (rule id_take_nth_drop)
  moreover have "?r ! (b - Suc a) = cs ! b" using assms by simp
  moreover have "drop (Suc (b - Suc a)) ?r = drop (Suc b) cs" using assms by simp
  ultimately have "?r = take (b - Suc a) ?r @ cs ! b # drop (Suc b) cs" by simp
  with a show ?thesis by (metis append_Cons append_Nil)
qed

lemma merge_at_length:
  assumes "a < b" "b < length cs"
  shows "length (merge_at cs (a, b)) = length cs - 1"
  using assms by (simp add: merge_at_def)

lemma merge_at_partition:
  assumes "a < b" "b < length cs" "partition_of N cs"
  shows "partition_of N (merge_at cs (a, b))"
proof -
  let ?x = "take a cs" and ?y = "take (b - Suc a) (drop (Suc a) cs)" and ?z = "drop (Suc b) cs"
  have cs: "cs = ?x @ [cs ! a] @ ?y @ [cs ! b] @ ?z" using assms(1,2) by (rule split_two)
  have m: "merge_at cs (a, b) = ?x @ [cs ! a @ cs ! b] @ ?y @ ?z" by (simp add: merge_at_def)
  have p: "partition_of N (?x @ [cs ! a] @ ?y @ [cs ! b] @ ?z)" using assms(3) cs by simp
  have "partition_of N (?x @ [cs ! a @ cs ! b] @ ?y @ ?z)"
    using p unfolding partition_of_def by auto
  with m show ?thesis by simp
qed

lemma cluster_pairs_set: "set (cluster_pairs n) = {(a, b). a < b \<and> b < n}"
  by (auto simp: cluster_pairs_def)

lemma merge_closest_step:
  assumes "2 \<le> length cs" "partition_of N cs"
  shows "length (merge_closest linkage P cs) = length cs - 1
         \<and> partition_of N (merge_closest linkage P cs)"
proof -
  let ?f = "\<lambda>(a, b). cluster_distance linkage P (cs ! a) (cs ! b)"
  have "(0, 1) \<in> set (cluster_pairs (length cs))" using assms(1) by (simp add: cluster_pairs_set)
  then have ne: "cluster_pairs (length cs) \<noteq> []" by auto
  obtain a b where ab: "arg_min_list ?f (cluster_pairs (length cs)) = (a, b)"
    by (cases "arg_min_list ?f (cluster_pairs (length cs))")
  from arg_min_list_in[OF ne, of ?f] ab have "a < b" "b < length cs"
    by (simp_all add: cluster_pairs_set)
  with assms ab show ?thesis
    by (simp add: merge_closest_def merge_at_length merge_at_partition)
qed

lemma agglomerate_invariant:
  assumes "m < length cs" "partition_of N cs"
  shows "length (agglomerate linkage P m cs) = length cs - m
         \<and> partition_of N (agglomerate linkage P m cs)"
  using assms
proof (induction m arbitrary: cs)
  case 0
  then show ?case by simp
next
  case (Suc m)
  from Suc.prems have "2 \<le> length cs" by simp
  from merge_closest_step[OF this Suc.prems(2), of linkage P]
  have s: "length (merge_closest linkage P cs) = length cs - 1"
    "partition_of N (merge_closest linkage P cs)" by auto
  with Suc.prems have "m < length (merge_closest linkage P cs)" by simp
  from Suc.IH[OF this s(2)] s(1) show ?case by simp
qed

lemma singletons_partition: "partition_of N (map (\<lambda>i. [i]) [0..<N])"
proof -
  have "concat (map (\<lambda>i. [i]) xs) = xs" for xs :: "nat list" by (induction xs) auto
  then show ?thesis by (auto simp: partition_of_def)
qed

lemma clusters_of_ok:
  assumes "1 \<le> k" "k \<le> length P"
  shows "length (clusters_of linkage P k) = k \<and> partition_of (length P) (clusters_of linkage P k)"
proof -
  have "length P - k < length (map (\<lambda>i. [i]) [0..<length P])" using assms by simp
  from agglomerate_invariant[OF this singletons_partition, of linkage P] assms
  show ?thesis by (simp add: clusters_of_def)
qed

lemma pick_min_least:
  "pick_min f best xs \<in> set (best # xs)
   \<and> (\<forall>j \<in> set (best # xs). f (pick_min f best xs) < f j
         \<or> (f (pick_min f best xs) = f j \<and> pick_min f best xs \<le> j))"
proof (induction xs arbitrary: best)
  case Nil
  then show ?case by simp
next
  case (Cons x xs)
  show ?case
  proof (cases "f x < f best \<or> (f x = f best \<and> x < best)")
    case True
    with Cons[of x] show ?thesis by (auto simp: less_eq_real_def)
  next
    case False
    with Cons[of best] show ?thesis by (auto simp: less_eq_real_def)
  qed
qed

lemma representative_least:
  assumes "C \<noteq> []"
  shows "representative P C \<in> set C
         \<and> (\<forall>j \<in> set C.
               euclidean (P ! representative P C) (centroid P C) < euclidean (P ! j) (centroid P C)
               \<or> (euclidean (P ! representative P C) (centroid P C) = euclidean (P ! j) (centroid P C)
                   \<and> representative P C \<le> j))"
proof -
  from assms have "hd C # tl C = C" by simp
  with pick_min_least[of "\<lambda>i. euclidean (P ! i) (centroid P C)" "hd C" "tl C"]
  show ?thesis by (simp add: representative_def)
qed

lemma distinct_representatives:
  assumes "distinct (concat cs)" "\<forall>C \<in> set cs. r C \<in> set C"
  shows "distinct (map r cs)"
  using assms
proof (induction cs)
  case Nil
  then show ?case by simp
next
  case (Cons C cs)
  have "r C \<notin> r ` set cs"
  proof
    assume "r C \<in> r ` set cs"
    then obtain D where D: "D \<in> set cs" "r C = r D" by auto
    with Cons.prems(2) have "r C \<in> set C" "r C \<in> set D" by auto
    with D(1) have "r C \<in> set C \<inter> set (concat cs)" by auto
    with Cons.prems(1) show False by auto
  qed
  with Cons show ?case by simp
qed

lemma representatives_ok:
  assumes "1 \<le> k" "k \<le> length P"
  shows "length (map (representative P) (clusters_of linkage P k)) = k"
    and "\<forall>i \<in> set (map (representative P) (clusters_of linkage P k)). i < length P"
    and "distinct (map (representative P) (clusters_of linkage P k))"
proof -
  let ?cs = "clusters_of linkage P k"
  from clusters_of_ok[OF assms(1,2), of linkage]
  have len: "length ?cs = k" and part: "partition_of (length P) ?cs" by simp_all
  show "length (map (representative P) ?cs) = k" using len by simp
  have mem: "\<forall>C \<in> set ?cs. representative P C \<in> set C"
  proof
    fix C assume "C \<in> set ?cs"
    with part have "C \<noteq> []" by (auto simp: partition_of_def)
    from representative_least[OF this, of P] show "representative P C \<in> set C" by simp
  qed
  show "\<forall>i \<in> set (map (representative P) ?cs). i < length P"
  proof
    fix i assume "i \<in> set (map (representative P) ?cs)"
    then obtain C where "C \<in> set ?cs" "i = representative P C" by auto
    with mem have "i \<in> set (concat ?cs)" by auto
    with part show "i < length P" by (simp add: partition_of_def)
  qed
  show "distinct (map (representative P) ?cs)"
    using part mem by (intro distinct_representatives) (simp_all add: partition_of_def)
qed

lemma valid_size_nat:
  "valid_size P (real k) \<longleftrightarrow> 1 \<le> k \<and> k \<le> length P"
  by (auto simp: valid_size_def)

lemma valid_size_floor:
  assumes "valid_size P x"
  shows "x = real (nat \<lfloor>x\<rfloor>)" "1 \<le> nat \<lfloor>x\<rfloor>" "nat \<lfloor>x\<rfloor> \<le> length P"
proof -
  from assms have x: "x = of_int \<lfloor>x\<rfloor>" "1 \<le> x" "x \<le> real (length P)"
    by (simp_all add: valid_size_def)
  from x(2) have f: "1 \<le> \<lfloor>x\<rfloor>" by linarith
  then show "x = real (nat \<lfloor>x\<rfloor>)" using x(1) by simp
  from f show "1 \<le> nat \<lfloor>x\<rfloor>" by arith
  from x(3) have "\<lfloor>x\<rfloor> \<le> int (length P)" by linarith
  then show "nat \<lfloor>x\<rfloor> \<le> length P" by simp
qed

lemma hierarchical_execute:
  assumes "1 \<le> k" "k \<le> length (remdups P)"
  shows "execute linkage rng P (real k) HIERARCHICAL
           = Inr (map (representative P) (clusters_of linkage P k))"
proof -
  have "k \<le> length P" by (rule order_trans[OF assms(2) length_remdups_leq])
  with assms show ?thesis by (simp add: execute_def valid_size_nat)
qed

lemma score_of_valid:
  assumes "S \<noteq> []" "\<forall>i \<in> set S. i < length P" "distinct S"
  shows "\<exists>sc. selector_score P (map int S) = Inr sc"
proof -
  have "\<not> list_ex (\<lambda>j. j < 0 \<or> int (length P) \<le> j) (map int S)"
    using assms(2) by (auto simp: list_ex_iff)
  moreover have "distinct (map int S)" using assms(3) by (simp add: distinct_map)
  ultimately show ?thesis using assms(1) by (simp add: selector_score_def)
qed

lemma draw_ok:
  assumes "distinct pool" "k \<le> length pool"
  shows "length (draw rng t pool k) = k \<and> distinct (draw rng t pool k)
         \<and> set (draw rng t pool k) \<subseteq> set pool"
  using assms
proof (induction k arbitrary: t pool)
  case 0
  then show ?case by simp
next
  case (Suc k)
  then have ne: "pool \<noteq> []" by auto
  let ?j = "rng t mod length pool"
  let ?rest = "take ?j pool @ drop (Suc ?j) pool"
  have j: "?j < length pool" using ne by simp
  have pool: "pool = take ?j pool @ pool ! ?j # drop (Suc ?j) pool"
    using j by (rule id_take_nth_drop)
  have d: "distinct (take ?j pool @ pool ! ?j # drop (Suc ?j) pool)"
    using Suc.prems(1) pool by simp
  then have dr: "distinct ?rest" and notin: "pool ! ?j \<notin> set ?rest" by auto
  have sub: "set ?rest \<subseteq> set pool" by (metis pool set_subset_Cons set_append Un_mono subset_refl)
  have "k \<le> length ?rest" using Suc.prems(2) j by simp
  from Suc.IH[OF dr this, of "Suc t"] notin sub j ne show ?case
    by (auto simp: Let_def)
qed

lemma execute_cases:
  "execute linkage rng P x strategy = Inl InvalidSizeError
     \<and> (\<not> valid_size P x \<or> (strategy = HIERARCHICAL \<and> length (remdups P) < nat \<lfloor>x\<rfloor>))
   \<or> (\<exists>S. execute linkage rng P x strategy = Inr S \<and> S \<noteq> [] \<and> (\<forall>i \<in> set S. i < length P)
          \<and> distinct S
          \<and> valid_size P x \<and> \<not> (strategy = HIERARCHICAL \<and> length (remdups P) < nat \<lfloor>x\<rfloor>))"
proof (cases "valid_size P x")
  case False
  then show ?thesis by (simp add: execute_def)
next
  case True
  note k = valid_size_floor[OF True]
  show ?thesis
  proof (cases strategy)
    case RANDOM
    have "distinct [0..<length P]" "nat \<lfloor>x\<rfloor> \<le> length [0..<length P]" using k by simp_all
    from draw_ok[OF this, of rng 0]
    have l: "length (draw rng 0 [0..<length P] (nat \<lfloor>x\<rfloor>)) = nat \<lfloor>x\<rfloor>"
      "distinct (draw rng 0 [0..<length P] (nat \<lfloor>x\<rfloor>))"
      "set (draw rng 0 [0..<length P] (nat \<lfloor>x\<rfloor>)) \<subseteq> {0..<length P}"
      by auto
    from l(3) have r: "\<forall>i \<in> set (draw rng 0 [0..<length P] (nat \<lfloor>x\<rfloor>)). i < length P" by auto
    from l(1) k(2) have ne: "draw rng 0 [0..<length P] (nat \<lfloor>x\<rfloor>) \<noteq> []" by auto
    from True RANDOM l(2) r ne show ?thesis by (simp add: execute_def)
  next
    case HIERARCHICAL
    show ?thesis
    proof (cases "length (remdups P) < nat \<lfloor>x\<rfloor>")
      case True
      with \<open>valid_size P x\<close> HIERARCHICAL show ?thesis by (simp add: execute_def)
    next
      case False
      note r = representatives_ok[OF k(2,3), of linkage]
      from r(1) k(2) have "map (representative P) (clusters_of linkage P (nat \<lfloor>x\<rfloor>)) \<noteq> []"
        by auto
      with False \<open>valid_size P x\<close> HIERARCHICAL r(2,3) show ?thesis
        by (simp add: execute_def)
    qed
  qed
qed

lemma resolve_strategy_unknown:
  "resolve_strategy vals tok = Inl UnknownStrategyError
     \<longleftrightarrow> (\<exists>v. tok = ByValue v \<and> vals HIERARCHICAL \<noteq> v \<and> vals RANDOM \<noteq> v)"
  by (cases tok) (auto simp: resolve_strategy_def)

lemma resolve_strategy_cases:
  "resolve_strategy vals tok = Inl UnknownStrategyError \<or> (\<exists>s. resolve_strategy vals tok = Inr s)"
  by (cases tok) (auto simp: resolve_strategy_def)

text \<open>
  Two entities with the same feature vector and two clusters requested: the size lies in
  \<open>[1, N]\<close>, and no subset is returned.
\<close>

theorem hierarchical_select_counterexample:
  "selector_select example_values (\<lambda>ds. Min (set ds)) (\<lambda>t. 0) [[0], [0]] 2 (ByMember HIERARCHICAL)
     = Inl InvalidSizeError
   \<and> (1 :: real) \<le> 2 \<and> (2 :: real) \<le> real (length [[0 :: real], [0]])"
  by (simp add: selector_select_def resolve_strategy_def execute_def valid_size_def)

text \<open>
  Claim C7, amended. For every population of \<open>N\<close> entities and every size \<open>k\<close> from 1 to
  the number of distinct feature vectors of the population (which is at most \<open>N\<close>),
  \<open>select(k, HIERARCHICAL)\<close> returns a subset of exactly \<open>k\<close> indices, each below \<open>N\<close>, no
  index twice: one index for each of the \<open>k\<close> clusters, which partition the positions,
  and in each cluster the member closest to the cluster's centroid, among the closest
  ones that of the smallest positional index.
\<close>

theorem hierarchical_select_k_representatives:
  assumes "1 \<le> k" and "k \<le> length (remdups P)"
    and "resolve_strategy vals tok = Inr HIERARCHICAL"
  shows "\<exists>S sc. selector_select vals linkage rng P (real k) tok = Inr (S, sc)
           \<and> length S = k \<and> (\<forall>i \<in> set S. i < length P) \<and> distinct S
           \<and> S = map (representative P) (clusters_of linkage P k)
           \<and> length (clusters_of linkage P k) = k
           \<and> partition_of (length P) (clusters_of linkage P k)
           \<and> (\<forall>C \<in> set (clusters_of linkage P k).
                 representative P C \<in> set C
                 \<and> (\<forall>j \<in> set C.
                       euclidean (P ! representative P C) (centroid P C)
                         < euclidean (P ! j) (centroid P C)
                       \<or> (euclidean (P ! representative P C) (centroid P C)
                             = euclidean (P ! j) (centroid P C)
                           \<and> representative P C \<le> j)))"
proof -
  let ?cs = "clusters_of linkage P k"
  let ?S = "map (representative P) ?cs"
  have "k \<le> length P" by (rule order_trans[OF assms(2) length_remdups_leq])
  with assms(1) have k: "1 \<le> k" "k \<le> length P" by simp_all
  note sub = representatives_ok[OF k, where linkage = linkage]
  note ex = hierarchical_execute[OF assms(1,2), of linkage rng]
  from clusters_of_ok[OF k, of linkage]
  have len: "length ?cs = k" and part: "partition_of (length P) ?cs" by simp_all
  have "?S \<noteq> []" using sub(1) k(1) by auto
  from score_of_valid[OF this sub(2,3)] obtain sc where sc: "selector_score P (map int ?S) = Inr sc"
    by blast
  have run: "selector_select vals linkage rng P (real k) tok = Inr (?S, sc)"
    using assms(3) ex sc by (simp add: selector_select_def)
  have least: "\<forall>C \<in> set ?cs.
                 representative P C \<in> set C
                 \<and> (\<forall>j \<in> set C.
                       euclidean (P ! representative P C) (centroid P C)
                         < euclidean (P ! j) (centroid P C)
                       \<or> (euclidean (P ! representative P C) (centroid P C)
                             = euclidean (P ! j) (centroid P C)
                           \<and> representative P C \<le> j))"
  proof
    fix C assume "C \<in> set ?cs"
    with part have "C \<noteq> []" by (auto simp: partition_of_def)
    then show "representative P C \<in> set C
                 \<and> (\<forall>j \<in> set C.
                       euclidean (P ! representative P C) (centroid P C)
                         < euclidean (P ! j) (centroid P C)
                       \<or> (euclidean (P ! representative P C) (centroid P C)
                             = euclidean (P ! j) (centroid P C)
                           \<and> representative P C \<le> j))"
      by (rule representative_least)
  qed
  from run sub(1,2,3) len part least show ?thesis by blast
qed

text \<open>
  Three entities on a line at 0, 1 and 10, two clusters, single linkage: the clusters are
  \<open>{0, 1}\<close> and \<open>{2}\<close>; in the first both members are equally far from the centroid and the
  smaller index is taken.
\<close>

lemma example_clusters: "clusters_of (\<lambda>ds. Min (set ds)) [[0], [1], [10]] 2 = [[0, 1], [2]]"
  by (simp add: clusters_of_def merge_closest_def cluster_pairs_def merge_at_def
      cluster_distance_def euclidean_def numeral_3_eq_3 upt_rec)

lemma example_representatives:
  "representative [[0], [1], [10]] [0, Suc 0] = 0" "representative [[0], [1], [10]] [2] = 2"
  by (simp_all add: representative_def centroid_def euclidean_def)

lemma example_score: "selector_score [[0], [1], [10]] [0, 2] = Inr (1 / 3)"
  by (simp add: selector_score_def nearest_distance_def euclidean_def numeral_3_eq_3 upt_rec)

lemma example_hierarchical:
  "selector_select example_values (\<lambda>ds. Min (set ds)) (\<lambda>t. 0) [[0], [1], [10]] 2
       (ByValue ''hierarchical'')
     = Inr ([0, 2], 1 / 3)"
  by (simp add: selector_select_def resolve_strategy_def execute_def valid_size_def
      example_clusters example_representatives example_score)

theorem hierarchical_select_k_representatives_witness:
  "(1 :: nat) \<le> 2 \<and> 2 \<le> length (remdups [[0 :: real], [1], [10]])
   \<and> resolve_strategy example_values (ByValue ''hierarchical'') = Inr HIERARCHICAL
   \<and> (\<exists>S sc. selector_select example_values (\<lambda>ds. Min (set ds)) (\<lambda>t. 0) [[0], [1], [10]] 2
                 (ByValue ''hierarchical'')
                 = Inr (S, sc)
          \<and> S = [0, 2] \<and> sc = 1 / 3 \<and> length S = 2 \<and> distinct S \<and> list_all (\<lambda>i. i < 3) S)"
proof -
  have h: "(1 :: nat) \<le> 2" "2 \<le> length (remdups [[0 :: real], [1], [10]])"
    "resolve_strategy example_values (ByValue ''hierarchical'') = Inr HIERARCHICAL"
    by (simp_all add: resolve_strategy_def)
  from hierarchical_select_k_representatives[OF h, of "\<lambda>ds. Min (set ds)" "\<lambda>t. 0"]
  obtain S sc where
    "selector_select example_values (\<lambda>ds. Min (set ds)) (\<lambda>t. 0) [[0], [1], [10]] (real 2)
        (ByValue ''hierarchical'') = Inr (S, sc)"
    "length S = 2" "\<forall>i \<in> set S. i < length [[0 :: real], [1], [10]]" "distinct S"
    by blast
  with example_hierarchical h show ?thesis by (auto simp: list_all_iff)
qed

section \<open>Errors of the engine\<close>

text \<open>
  Three entities with the same feature vector and three requested with HIERARCHICAL, and
  half an entity requested with RANDOM: InvalidSizeError is raised though the size is not
  zero, not negative and not above \<open>N\<close>. Size 0 requested with a strategy that is not
  known: the error raised is not InvalidSizeError.
\<close>

theorem invalid_size_counterexample:
  "selector_select example_values (\<lambda>ds. Min (set ds)) (\<lambda>t. 0) [[1], [1], [1]] 3
       (ByMember HIERARCHICAL) = Inl InvalidSizeError
   \<and> (0 :: real) < 3 \<and> (3 :: real) \<le> real (length [[1 :: real], [1], [1]])
   \<and> selector_select example_values (\<lambda>ds. Min (set ds)) (\<lambda>t. 0) [[0], [1]] (1 / 2)
       (ByMember RANDOM) = Inl InvalidSizeError
   \<and> (0 :: real) < 1 / 2 \<and> (1 / 2 :: real) \<le> real (length [[0 :: real], [1]])
   \<and> selector_select example_values (\<lambda>ds. Min (set ds)) (\<lambda>t. 0) [[0], [1]] 0
       (ByValue ''kmeans'') = Inl UnknownStrategyError"
  by (simp add: selector_select_def resolve_strategy_def execute_def valid_size_def)

text \<open>
  Claim C6, amended. \<open>select\<close> raises UnknownStrategyError exactly when the strategy
  token is a string that is the value of no member of the enumeration, whatever the
  size. It raises InvalidSizeError exactly when the strategy is recognised and the
  requested size is not a whole number, is below 1 (zero or negative), is greater than
  \<open>N\<close>, or, for HIERARCHICAL, is greater than the number of distinct feature vectors. In
  every other case it returns a selection. \<open>score\<close> raises InvalidSelectionError exactly
  when the subset is empty, contains an index outside \<open>[0, N)\<close> or contains an index
  twice, and returns a score otherwise: a subset with duplicates is rejected, never
  scored.
\<close>

theorem invalid_size_and_invalid_selection_exactly:
  "(selector_select vals linkage rng P x tok = Inl UnknownStrategyError
      \<longleftrightarrow> (\<exists>v. tok = ByValue v \<and> vals HIERARCHICAL \<noteq> v \<and> vals RANDOM \<noteq> v))
   \<and> (selector_select vals linkage rng P x tok = Inl InvalidSizeError
        \<longleftrightarrow> (\<exists>s. resolve_strategy vals tok = Inr s
                 \<and> (x \<noteq> of_int \<lfloor>x\<rfloor> \<or> x < 1 \<or> real (length P) < x
                      \<or> (s = HIERARCHICAL \<and> length (remdups P) < nat \<lfloor>x\<rfloor>))))
   \<and> (selector_select vals linkage rng P x tok = Inl UnknownStrategyError
        \<or> selector_select vals linkage rng P x tok = Inl InvalidSizeError
        \<or> (\<exists>S sc. selector_select vals linkage rng P x tok = Inr (S, sc)))
   \<and> (selector_score P T = Inl InvalidSelectionError
        \<longleftrightarrow> T = [] \<or> (\<exists>j \<in> set T. j < 0 \<or> int (length P) \<le> j) \<or> \<not> distinct T)
   \<and> (selector_score P T = Inl InvalidSelectionError \<or> (\<exists>sc. selector_score P T = Inr sc))"
proof -
  have vs: "valid_size P x \<longleftrightarrow> \<not> (x \<noteq> of_int \<lfloor>x\<rfloor> \<or> x < 1 \<or> real (length P) < x)"
    by (auto simp: valid_size_def)
  have sel: "(selector_select vals linkage rng P x tok = Inl UnknownStrategyError
                \<longleftrightarrow> resolve_strategy vals tok = Inl UnknownStrategyError)
             \<and> (selector_select vals linkage rng P x tok = Inl InvalidSizeError
                \<longleftrightarrow> (\<exists>s. resolve_strategy vals tok = Inr s
                         \<and> (\<not> valid_size P x
                              \<or> (s = HIERARCHICAL \<and> length (remdups P) < nat \<lfloor>x\<rfloor>))))
             \<and> (selector_select vals linkage rng P x tok = Inl UnknownStrategyError
                  \<or> selector_select vals linkage rng P x tok = Inl InvalidSizeError
                  \<or> (\<exists>S sc. selector_select vals linkage rng P x tok = Inr (S, sc)))"
  proof (cases "resolve_strategy vals tok = Inl UnknownStrategyError")
    case True
    then show ?thesis by (simp add: selector_select_def)
  next
    case False
    with resolve_strategy_cases[of vals tok] obtain s where s: "resolve_strategy vals tok = Inr s"
      by blast
    from execute_cases[of linkage rng P x s]
    consider
      (err) "execute linkage rng P x s = Inl InvalidSizeError"
        "\<not> valid_size P x \<or> (s = HIERARCHICAL \<and> length (remdups P) < nat \<lfloor>x\<rfloor>)"
    | (ok) S where "execute linkage rng P x s = Inr S" "S \<noteq> []" "\<forall>i \<in> set S. i < length P"
        "distinct S" "valid_size P x"
        "\<not> (s = HIERARCHICAL \<and> length (remdups P) < nat \<lfloor>x\<rfloor>)"
      by blast
    then show ?thesis
    proof cases
      case err
      note e = err(1) and c = err(2)
      from s e have "selector_select vals linkage rng P x tok = Inl InvalidSizeError"
        by (simp add: selector_select_def)
      with s c show ?thesis by simp
    next
      case ok
      note e = ok(1) and S = ok(2,3,4) and c = ok(5,6)
      from score_of_valid[OF S] obtain sc where "selector_score P (map int S) = Inr sc" by blast
      with s e have "selector_select vals linkage rng P x tok = Inr (S, sc)"
        by (simp add: selector_select_def)
      with s c show ?thesis by simp
    qed
  qed
  have c: "selector_score P T = Inl InvalidSelectionError
        \<longleftrightarrow> T = [] \<or> (\<exists>j \<in> set T. j < 0 \<or> int (length P) \<le> j) \<or> \<not> distinct T"
    by (auto simp: selector_score_def list_ex_iff)
  have d: "selector_score P T = Inl InvalidSelectionError \<or> (\<exists>sc. selector_score P T = Inr sc)"
    by (simp add: selector_score_def)
  from sel c d show ?thesis
    unfolding vs resolve_strategy_unknown by blast
qed

theorem invalid_size_and_invalid_selection_exactly_witness:
  "selector_select example_values (\<lambda>ds. Min (set ds)) (\<lambda>t. 0) [[0], [1]] 3 (ByMember RANDOM)
     = Inl InvalidSizeError
   \<and> selector_select example_values (\<lambda>ds. Min (set ds)) (\<lambda>t. 0) [[0], [1]] 0
       (ByValue ''hierarchical'') = Inl InvalidSizeError
   \<and> selector_select example_values (\<lambda>ds. Min (set ds)) (\<lambda>t. 0) [[0], [1]] (- 1)
       (ByValue ''random'') = Inl InvalidSizeError
   \<and> selector_select example_values (\<lambda>ds. Min (set ds)) (\<lambda>t. 0) [[0], [1]] (1 / 5)
       (ByValue ''hierarchical'') = Inl InvalidSizeError
   \<and> selector_select example_values (\<lambda>ds. Min (set ds)) (\<lambda>t. 0) [[0], [1]] (1 / 5)
       (ByValue ''kmeans'') = Inl UnknownStrategyError
   \<and> (\<exists>S sc. selector_select example_values (\<lambda>ds. Min (set ds)) (\<lambda>t. 0) [[0], [1]] 2
                 (ByMember RANDOM) = Inr (S, sc))
   \<and> selector_score [[0], [1]] [] = Inl InvalidSelectionError
   \<and> selector_score [[0], [1]] [0, 2] = Inl InvalidSelectionError
   \<and> selector_score [[0], [1]] [1, 1] = Inl InvalidSelectionError
   \<and> (\<exists>sc. selector_score [[0], [1]] [1] = Inr sc)"
proof -
  note t = invalid_size_and_invalid_selection_exactly
             [where vals = example_values and linkage = "\<lambda>ds. Min (set ds)" and rng = "\<lambda>t. 0"
                and P = "[[0], [1]]"]
  have r: "resolve_strategy example_values (ByMember RANDOM) = Inr RANDOM"
    "resolve_strategy example_values (ByValue ''hierarchical'') = Inr HIERARCHICAL"
    "resolve_strategy example_values (ByValue ''random'') = Inr RANDOM"
    by (simp_all add: resolve_strategy_def)
  from t[of 3 "ByMember RANDOM" "[]"] r
  have a: "selector_select example_values (\<lambda>ds. Min (set ds)) (\<lambda>t. 0) [[0], [1]] 3
             (ByMember RANDOM) = Inl InvalidSizeError"
    "selector_score [[0], [1]] [] = Inl InvalidSelectionError"
    by auto
  from t[of 0 "ByValue ''hierarchical''" "[0, 2]"] r
  have b: "selector_select example_values (\<lambda>ds. Min (set ds)) (\<lambda>t. 0) [[0], [1]] 0
             (ByValue ''hierarchical'') = Inl InvalidSizeError"
    "selector_score [[0], [1]] [0, 2] = Inl InvalidSelectionError"
    by auto
  from t[of "- 1" "ByValue ''random''" "[1, 1]"] r
  have c: "selector_select example_values (\<lambda>ds. Min (set ds)) (\<lambda>t. 0) [[0], [1]] (- 1)
             (ByValue ''random'') = Inl InvalidSizeError"
    "selector_score [[0], [1]] [1, 1] = Inl InvalidSelectionError"
    by auto
  from t[of "1 / 5" "ByValue ''hierarchical''" "[1]"] r
  have d: "selector_select example_values (\<lambda>ds. Min (set ds)) (\<lambda>t. 0) [[0], [1]] (1 / 5)
             (ByValue ''hierarchical'') = Inl InvalidSizeError"
    "\<exists>sc. selector_score [[0], [1]] [1] = Inr sc"
    by auto
  from t[of "1 / 5" "ByValue ''kmeans''" "[1]"]
  have e: "selector_select example_values (\<lambda>ds. Min (set ds)) (\<lambda>t. 0) [[0], [1]] (1 / 5)
             (ByValue ''kmeans'') = Inl UnknownStrategyError"
    by simp
  from t[of 2 "ByMember RANDOM" "[1]"] r
  have f: "\<exists>S sc. selector_select example_values (\<lambda>ds. Min (set ds)) (\<lambda>t. 0) [[0], [1]] 2
                 (ByMember RANDOM) = Inr (S, sc)"
    by auto
  from a b c d e f show ?thesis by blast
qed

end
